(* ===== verification/Prelude.thy ===== *)
theory Prelude
  imports Main "HOL-Library.Word"
begin

text \<open>
  The generic part of the library: machine integers and byte strings, the big-endian
  encodings of the standard library (\<open>u32::to_be_bytes\<close>, \<open>u64::to_be_bytes\<close> and
  \<open>from_be_bytes\<close>), the two ways Rust writes into a fixed array (an indexed store and
  \<open>copy_from_slice\<close> into a sub-slice), sub-slices, \<open>slice::chunks\<close>, and the result
  type every fallible or effectful operation of the model returns. Nothing here models a
  line of the program itself; the component theories build on these names and on the two
  collections declared here: \<open>quiet_rules\<close> (operations that leave standard output
  alone) and \<open>len_simps\<close> (lengths of the byte strings the code assembles).
\<close>

unbundle bit_operations_syntax

named_theorems quiet_rules
named_theorems len_simps

type_synonym u8 = "8 word"
type_synonym u32 = "32 word"
type_synonym u64 = "64 word"
type_synonym bytes = "u8 list"

subsection \<open>Results\<close>

text \<open>
  \<open>Ok\<close> and \<open>Err\<close> are Rust's \<open>Result\<close>. \<open>Panic\<close> is a panic (the release profile aborts
  on it) and \<open>Diverge\<close> a loop that never ends, so that neither is confused with an error
  value the program handles.
\<close>

datatype ('e, 'a) res = Ok 'a | Err 'e | Panic string | Diverge

fun is_Ok :: "('e, 'a) res \<Rightarrow> bool" where
  "is_Ok (Ok x) = True"
| "is_Ok _ = False"

fun map_err :: "('e \<Rightarrow> 'f) \<Rightarrow> ('e, 'a) res \<Rightarrow> ('f, 'a) res" where
  "map_err f (Ok x) = Ok x"
| "map_err f (Err e) = Err (f e)"
| "map_err f (Panic s) = Panic s"
| "map_err f Diverge = Diverge"

fun_cases map_err_OkE [elim!]: "map_err f r = Ok x"
fun_cases is_OkE: "is_Ok r"

lemma map_err_eq_Ok [simp]: "map_err f r = Ok x \<longleftrightarrow> r = Ok x"
  by (cases r) auto

lemma is_Ok_iff: "is_Ok r \<longleftrightarrow> (\<exists>x. r = Ok x)"
  by (cases r) auto

subsection \<open>Big-endian bytes\<close>

definition be_bytes :: "nat list \<Rightarrow> 'a::len word \<Rightarrow> bytes" where
  "be_bytes ks w = map (\<lambda>k. ucast (drop_bit k w)) ks"

definition be32 :: "u32 \<Rightarrow> bytes" where
  "be32 = be_bytes [24, 16, 8, 0]"

definition be64 :: "u64 \<Rightarrow> bytes" where
  "be64 = be_bytes [56, 48, 40, 32, 24, 16, 8, 0]"

definition from_be :: "bytes \<Rightarrow> 'a::len word" where
  "from_be bs = foldl (\<lambda>a b. push_bit 8 a OR ucast b) 0 bs"

lemma length_be32 [simp, len_simps]: "length (be32 w) = 4"
  by (simp add: be32_def be_bytes_def)

lemma length_be64 [simp, len_simps]: "length (be64 w) = 8"
  by (simp add: be64_def be_bytes_def)

lemma u8_high_bits [simp]: "8 \<le> k \<Longrightarrow> \<not> bit (b :: u8) k"
  by (auto dest: bit_imp_le_length)

text \<open>A byte of the encoding holds the eight bits of the word above its offset.\<close>

lemma bit_of_byte:
  fixes w :: "'a::len word"
  assumes "k \<le> n" and "n < k + 8"
  shows "bit (ucast (drop_bit k w) :: u8) (n - k) \<longleftrightarrow> bit w n"
  using assms by (auto simp: bit_simps dest: bit_imp_le_length)

lemma from_be_be32 [simp]: "from_be (be32 w) = w"
proof (rule bit_eqI)
  fix n assume "possible_bit TYPE(u32) n"
  consider "n < 8" | "8 \<le> n" "n < 16" | "16 \<le> n" "n < 24" | "24 \<le> n"
    by linarith
  then show "bit (from_be (be32 w) :: u32) n = bit w n"
    by cases (auto simp: from_be_def be32_def be_bytes_def bit_simps dest: bit_imp_le_length)
qed

lemma be32_inject [simp]: "be32 v = be32 w \<longleftrightarrow> v = w"
  by (metis from_be_be32)

lemma be64_inject [simp]: "be64 v = be64 w \<longleftrightarrow> v = w"
proof
  assume eq: "be64 v = be64 w"
  show "v = w"
  proof (rule bit_eqI)
    fix n assume "possible_bit TYPE(u64) n"
    then have n: "n < 64" by simp
    define k where "k = 8 * (n div 8)"
    have bounds: "k \<le> n" "n < k + 8"
      by (simp_all add: k_def)
    consider "n div 8 = 0" | "n div 8 = 1" | "n div 8 = 2" | "n div 8 = 3" | "n div 8 = 4"
      | "n div 8 = 5" | "n div 8 = 6" | "n div 8 = 7"
      using n by linarith
    then have "k \<in> {56, 48, 40, 32, 24, 16, 8, 0}"
      by cases (simp_all add: k_def)
    then have "(ucast (drop_bit k v) :: u8) = ucast (drop_bit k w)"
      using eq by (auto simp: be64_def be_bytes_def)
    then show "bit v n = bit w n"
      using bit_of_byte [OF bounds, of v] bit_of_byte [OF bounds, of w] by simp
  qed
qed simp

text \<open>A four-byte string is the encoding of what it decodes to: the wire has one spelling.\<close>

lemma be32_from_be:
  assumes "length bs = 4"
  shows "be32 (from_be bs) = bs"
proof -
  obtain a b c d where bs: "bs = [a, b, c, d]"
    using assms by (auto simp: numeral_eq_Suc length_Suc_conv)
  show ?thesis
    unfolding bs be32_def be_bytes_def from_be_def
    by (auto intro!: bit_eqI simp: bit_simps)
qed

subsection \<open>Slices and fixed arrays\<close>

text \<open>
  \<open>slice bs i j\<close> is \<open>&bs[i..j]\<close> and \<open>blit buf off src\<close> is
  \<open>buf[off..off + src.len()].copy_from_slice(src)\<close>; both panic in Rust when the range
  leaves the array, which the length lemmas of the callers exclude.
\<close>

definition slice :: "'a list \<Rightarrow> nat \<Rightarrow> nat \<Rightarrow> 'a list" where
  "slice bs i j = take (j - i) (drop i bs)"

definition blit :: "'a list \<Rightarrow> nat \<Rightarrow> 'a list \<Rightarrow> 'a list" where
  "blit buf off src = take off buf @ src @ drop (off + length src) buf"

lemma length_slice [simp, len_simps]:
  "j \<le> length bs \<Longrightarrow> length (slice bs i j) = j - i"
  by (simp add: slice_def)

lemma slice_append [simp]: "j \<le> length xs \<Longrightarrow> slice (xs @ ys) i j = slice xs i j"
  by (cases "i \<le> j") (auto simp: slice_def)

lemma slice_append_right:
  "length xs \<le> i \<Longrightarrow> slice (xs @ ys) i j = slice ys (i - length xs) (j - length xs)"
  by (simp add: slice_def)

lemma slice_all [simp]: "n = length xs \<Longrightarrow> slice xs 0 n = xs"
  by (simp add: slice_def)

lemma slice_split: "i \<le> k \<Longrightarrow> k \<le> j \<Longrightarrow> slice bs i j = slice bs i k @ slice bs k j"
  using take_add [of "k - i" "j - k" "drop i bs"] by (simp add: slice_def)

lemma length_blit [simp, len_simps]:
  "off + length src \<le> length buf \<Longrightarrow> length (blit buf off src) = length buf"
  by (simp add: blit_def)

subsection \<open>\<open>slice::chunks\<close>\<close>

fun chunks :: "nat \<Rightarrow> 'a list \<Rightarrow> 'a list list" where
  "chunks n xs = (if n = 0 \<or> xs = [] then [] else take n xs # chunks n (drop n xs))"

declare chunks.simps [simp del]

lemma chunks_Nil [simp]: "chunks n [] = []"
  by (simp add: chunks.simps)

lemma chunks_rec: "0 < n \<Longrightarrow> xs \<noteq> [] \<Longrightarrow> chunks n xs = take n xs # chunks n (drop n xs)"
  by (subst chunks.simps) simp

lemma chunks_induct [consumes 1, case_names Nil rec]:
  assumes "0 < n" and "P []"
    and "\<And>xs. xs \<noteq> [] \<Longrightarrow> P (drop n xs) \<Longrightarrow> P xs"
  shows "P xs"
proof (induction "length xs" arbitrary: xs rule: less_induct)
  case less
  with assms show ?case by (cases "xs = []") auto
qed

lemma concat_chunks [simp]:
  assumes "0 < n"
  shows "concat (chunks n xs) = xs"
  using assms
proof (induction xs rule: chunks_induct)
  case (rec xs)
  with assms show ?case by (simp add: chunks_rec [of n xs])
qed simp

lemma chunks_nonempty:
  assumes "0 < n" and "ck \<in> set (chunks n xs)"
  shows "ck \<noteq> [] \<and> length ck \<le> n"
  using assms
proof (induction xs rule: chunks_induct)
  case (rec xs)
  with assms(1) show ?case by (auto simp: chunks_rec [of n xs])
qed simp

lemma chunks_eq_Nil [simp]: "0 < n \<Longrightarrow> chunks n xs = [] \<longleftrightarrow> xs = []"
  by (subst chunks.simps) simp

lemma chunks_short: "xs \<noteq> [] \<Longrightarrow> length xs \<le> n \<Longrightarrow> chunks n xs = [xs]"
  by (cases "n = 0") (simp_all add: chunks_rec [of n xs])

text \<open>Every chunk but the last is full.\<close>

lemma chunks_butlast_full:
  assumes "0 < n" and "ck \<in> set (butlast (chunks n xs))"
  shows "length ck = n"
  using assms
proof (induction xs rule: chunks_induct)
  case (rec xs)
  have eq: "chunks n xs = take n xs # chunks n (drop n xs)"
    using assms(1) rec.hyps by (rule chunks_rec)
  show ?case
  proof (cases "drop n xs = []")
    case True
    with rec.prems eq show ?thesis by simp
  next
    case False
    then have "chunks n (drop n xs) \<noteq> []" using assms(1) by simp
    with rec.prems eq have "ck = take n xs \<or> ck \<in> set (butlast (chunks n (drop n xs)))"
      by simp
    with False rec.IH show ?thesis by auto
  qed
qed simp

end
