(* ===== verification/Text.thy ===== *)
theory Text
  imports Prelude
begin

text \<open>
  Rust's \<open>str\<close>: a string is its UTF-8 bytes, one \<open>char\<close> each. This theory models the
  string operations the program calls: \<open>std::str::from_utf8\<close>, \<open>trim\<close>, \<open>starts_with\<close>,
  \<open>strip_prefix\<close>, \<open>contains\<close>, \<open>lines\<close>, \<open>split_whitespace\<close>, the integer \<open>parse\<close>
  instances, and decimal formatting. White space is Unicode's White_Space property, as in
  \<open>char::is_whitespace\<close>, matched on the UTF-8 bytes.
\<close>

subsection \<open>Bytes and characters\<close>

definition char_byte :: "char \<Rightarrow> u8" where
  "char_byte c = of_char c"

definition str_bytes :: "string \<Rightarrow> bytes" where
  "str_bytes s = map char_byte s"

definition bytes_str :: "bytes \<Rightarrow> string" where
  "bytes_str bs = map (\<lambda>b. char_of (unat b)) bs"

lemma length_str_bytes [simp, len_simps]: "length (str_bytes s) = length s"
  by (simp add: str_bytes_def)

lemma length_bytes_str [simp, len_simps]: "length (bytes_str bs) = length bs"
  by (simp add: bytes_str_def)

lemma unat_char_byte: "unat (char_byte c) = of_char c"
proof -
  have "char_byte c = of_nat (of_char c)"
    by (simp add: char_byte_def of_nat_of_char)
  then show ?thesis
    using nat_of_char_less_256 [of c] by (simp add: unat_of_nat)
qed

lemma bytes_str_str_bytes [simp]: "bytes_str (str_bytes s) = s"
  by (simp add: bytes_str_def str_bytes_def unat_char_byte comp_def)

lemma str_bytes_bytes_str [simp]: "str_bytes (bytes_str bs) = bs"
proof -
  have "char_byte (char_of (unat b)) = b" for b :: u8
  proof (rule word_unat_eq_iff [THEN iffD2])
    have "unat b < 2 ^ LENGTH(8)" by (rule unsigned_less)
    then show "unat (char_byte (char_of (unat b))) = unat b"
      by (simp add: unat_char_byte)
  qed
  then show ?thesis by (simp add: bytes_str_def str_bytes_def comp_def)
qed

lemma str_bytes_inject [simp]: "str_bytes s = str_bytes t \<longleftrightarrow> s = t"
  by (metis bytes_str_str_bytes)

subsection \<open>UTF-8 validity (\<open>std::str::from_utf8\<close>)\<close>

definition cont :: "u8 \<Rightarrow> bool" where
  "cont b \<longleftrightarrow> 0x80 \<le> b \<and> b \<le> 0xBF"

definition lead3 :: "u8 \<Rightarrow> u8 \<Rightarrow> bool" where
  "lead3 a b \<longleftrightarrow>
     (a = 0xE0 \<and> 0xA0 \<le> b \<and> b \<le> 0xBF) \<or>
     (0xE1 \<le> a \<and> a \<le> 0xEC \<and> cont b) \<or>
     (a = 0xED \<and> 0x80 \<le> b \<and> b \<le> 0x9F) \<or>
     (0xEE \<le> a \<and> a \<le> 0xEF \<and> cont b)"

definition lead4 :: "u8 \<Rightarrow> u8 \<Rightarrow> bool" where
  "lead4 a b \<longleftrightarrow>
     (a = 0xF0 \<and> 0x90 \<le> b \<and> b \<le> 0xBF) \<or>
     (0xF1 \<le> a \<and> a \<le> 0xF3 \<and> cont b) \<or>
     (a = 0xF4 \<and> 0x80 \<le> b \<and> b \<le> 0x8F)"

fun utf8_valid :: "bytes \<Rightarrow> bool" where
  "utf8_valid [] = True"
| "utf8_valid (a # s) =
     (if a < 0x80 then utf8_valid s
      else (case s of
        [] \<Rightarrow> False
      | b # s2 \<Rightarrow>
          if 0xC2 \<le> a \<and> a \<le> 0xDF then cont b \<and> utf8_valid s2
          else (case s2 of
            [] \<Rightarrow> False
          | c # s3 \<Rightarrow>
              if 0xE0 \<le> a \<and> a \<le> 0xEF then lead3 a b \<and> cont c \<and> utf8_valid s3
              else (case s3 of
                [] \<Rightarrow> False
              | d # s4 \<Rightarrow> lead4 a b \<and> cont c \<and> cont d \<and> utf8_valid s4))))"

definition from_utf8 :: "bytes \<Rightarrow> string option" where
  "from_utf8 bs = (if utf8_valid bs then Some (bytes_str bs) else None)"

lemma utf8_valid_ascii: "\<forall>b \<in> set bs. b < 0x80 \<Longrightarrow> utf8_valid bs"
  by (induction bs) auto

subsection \<open>White space and trimming\<close>

abbreviation code :: "char \<Rightarrow> nat" where
  "code c \<equiv> of_char c"

text \<open>The one-, two- and three-byte encodings of the White_Space characters.\<close>

definition ws1 :: "char \<Rightarrow> bool" where
  "ws1 c \<longleftrightarrow> (9 \<le> code c \<and> code c \<le> 13) \<or> code c = 32"

definition ws2 :: "char \<Rightarrow> char \<Rightarrow> bool" where
  "ws2 c d \<longleftrightarrow> code c = 0xC2 \<and> (code d = 0x85 \<or> code d = 0xA0)"

definition ws3 :: "char \<Rightarrow> char \<Rightarrow> char \<Rightarrow> bool" where
  "ws3 c d e \<longleftrightarrow>
     (code c = 0xE1 \<and> code d = 0x9A \<and> code e = 0x80) \<or>
     (code c = 0xE2 \<and> code d = 0x80 \<and>
        ((0x80 \<le> code e \<and> code e \<le> 0x8A) \<or> code e = 0xA8 \<or> code e = 0xA9 \<or> code e = 0xAF)) \<or>
     (code c = 0xE2 \<and> code d = 0x81 \<and> code e = 0x9F) \<or>
     (code c = 0xE3 \<and> code d = 0x80 \<and> code e = 0x80)"

text \<open>The bytes of the white-space character at the front of a string, 0 when there is none.\<close>

fun ws_len :: "string \<Rightarrow> nat" where
  "ws_len [] = 0"
| "ws_len [c] = (if ws1 c then 1 else 0)"
| "ws_len [c, d] = (if ws1 c then 1 else if ws2 c d then 2 else 0)"
| "ws_len (c # d # e # _) = (if ws1 c then 1 else if ws2 c d then 2 else if ws3 c d e then 3 else 0)"

text \<open>The same for the white-space character at the end, read on the reversed string.\<close>

fun ws_len_rev :: "string \<Rightarrow> nat" where
  "ws_len_rev [] = 0"
| "ws_len_rev [c] = (if ws1 c then 1 else 0)"
| "ws_len_rev [c, d] = (if ws1 c then 1 else if ws2 d c then 2 else 0)"
| "ws_len_rev (c # d # e # _) =
     (if ws1 c then 1 else if ws2 d c then 2 else if ws3 e d c then 3 else 0)"

function drop_ws :: "(string \<Rightarrow> nat) \<Rightarrow> string \<Rightarrow> string" where
  "drop_ws f s = (if s = [] \<or> f s = 0 then s else drop_ws f (drop (f s) s))"
  by pat_completeness auto
termination
  by (relation "measure (\<lambda>(f, s). length s)") auto

declare drop_ws.simps [simp del]

definition trim_start :: "string \<Rightarrow> string" where
  "trim_start s = drop_ws ws_len s"

definition trim_end :: "string \<Rightarrow> string" where
  "trim_end s = rev (drop_ws ws_len_rev (rev s))"

definition trim :: "string \<Rightarrow> string" where
  "trim s = trim_end (trim_start s)"

lemma drop_ws_stop [simp]: "f s = 0 \<Longrightarrow> drop_ws f s = s"
  by (simp add: drop_ws.simps)

lemma drop_ws_done: "drop_ws f s = [] \<or> f (drop_ws f s) = 0"
proof (induction f s rule: drop_ws.induct)
  case (1 f s)
  then show ?case by (cases "s = [] \<or> f s = 0") (auto simp: drop_ws.simps [of f s])
qed

lemma trim_no_ws: "ws_len s = 0 \<Longrightarrow> ws_len_rev (rev s) = 0 \<Longrightarrow> trim s = s"
  by (simp add: trim_def trim_start_def trim_end_def)

text \<open>Printable ASCII characters other than the space are no part of any white space.\<close>

definition visible :: "char \<Rightarrow> bool" where
  "visible ch \<longleftrightarrow> 33 \<le> code ch \<and> code ch \<le> 126"

lemma visible_no_ws: "visible a \<Longrightarrow> \<not> ws1 a \<and> \<not> ws2 a b \<and> \<not> ws3 a b d"
  by (auto simp: visible_def ws1_def ws2_def ws3_def)

lemma visible_ws_len: "list_all visible s \<Longrightarrow> ws_len s = 0"
  using visible_no_ws by (cases s rule: ws_len.cases) auto

lemma visible_ws_len_rev: "list_all visible s \<Longrightarrow> ws_len_rev s = 0"
  using visible_no_ws by (cases s rule: ws_len_rev.cases) auto

lemma trim_visible: "list_all visible s \<Longrightarrow> trim s = s"
  by (rule trim_no_ws) (simp_all add: visible_ws_len visible_ws_len_rev)

lemma utf8_valid_str: "\<forall>ch \<in> set s. code ch < 128 \<Longrightarrow> utf8_valid (str_bytes s)"
  by (rule utf8_valid_ascii) (auto simp: str_bytes_def word_less_nat_alt unat_char_byte)

subsection \<open>Searching and splitting\<close>

fun starts_with :: "string \<Rightarrow> string \<Rightarrow> bool" where
  "starts_with s [] = True"
| "starts_with [] (p # ps) = False"
| "starts_with (c # s) (p # ps) = (c = p \<and> starts_with s ps)"

fun strip_prefix :: "string \<Rightarrow> string \<Rightarrow> string option" where
  "strip_prefix s [] = Some s"
| "strip_prefix [] (p # ps) = None"
| "strip_prefix (c # s) (p # ps) = (if c = p then strip_prefix s ps else None)"

fun contains :: "string \<Rightarrow> string \<Rightarrow> bool" where
  "contains [] p = (p = [])"
| "contains (c # s) p = (starts_with (c # s) p \<or> contains s p)"

lemma starts_with_iff: "starts_with s p \<longleftrightarrow> (\<exists>r. s = p @ r)"
  by (induction s p rule: starts_with.induct) auto

lemma strip_prefix_Some: "strip_prefix s p = Some r \<longleftrightarrow> s = p @ r"
  by (induction s p rule: strip_prefix.induct) auto

lemma contains_iff: "contains s p \<longleftrightarrow> (\<exists>a b. s = a @ p @ b)"
proof (induction s)
  case (Cons c s)
  have "(\<exists>a b. c # s = a @ p @ b) \<longleftrightarrow> (\<exists>b. c # s = p @ b) \<or> (\<exists>a b. s = a @ p @ b)"
    by (metis append_Cons append_Nil list.exhaust_sel list.sel(3) tl_append2)
  with Cons show ?case by (simp add: starts_with_iff)
qed simp

text \<open>
  \<open>str::lines\<close>: the string is cut at every line feed, a last empty piece is dropped,
  and one carriage return is taken off the end of a piece that a line feed ended.
\<close>

definition newline :: char where
  "newline = CHR 0x0A"

definition carriage_return :: char where
  "carriage_return = CHR 0x0D"

definition chop_cr :: "string \<Rightarrow> string" where
  "chop_cr l = (if l \<noteq> [] \<and> last l = carriage_return then butlast l else l)"

fun lines_acc :: "string \<Rightarrow> string \<Rightarrow> string list" where
  "lines_acc acc [] = (if acc = [] then [] else [acc])"
| "lines_acc acc (c # s) =
     (if c = newline then chop_cr acc # lines_acc [] s else lines_acc (acc @ [c]) s)"

definition lines :: "string \<Rightarrow> string list" where
  "lines s = lines_acc [] s"

lemma contains_char: "contains s p \<Longrightarrow> ch \<in> set p \<Longrightarrow> ch \<in> set s"
  by (auto simp: contains_iff)

lemma lines_acc_line:
  "newline \<notin> set x \<Longrightarrow> lines_acc acc (x @ newline # s) = chop_cr (acc @ x) # lines_acc [] s"
  by (induction x arbitrary: acc) auto

lemma lines_line: "newline \<notin> set x \<Longrightarrow> lines (x @ newline # s) = chop_cr x # lines s"
  using lines_acc_line [of x "[]" s] by (simp add: lines_def)

lemma lines_Nil [simp]: "lines [] = []"
  by (simp add: lines_def)

lemma chop_cr_id: "carriage_return \<notin> set x \<Longrightarrow> chop_cr x = x"
  unfolding chop_cr_def by (metis last_in_set)

text \<open>\<open>str::split_whitespace\<close>: the maximal non-empty pieces without white space.\<close>

function split_ws_acc :: "string \<Rightarrow> string \<Rightarrow> string list" where
  "split_ws_acc acc [] = (if acc = [] then [] else [acc])"
| "split_ws_acc acc (c # s) =
     (if ws_len (c # s) = 0 then split_ws_acc (acc @ [c]) s
      else (if acc = [] then [] else [acc]) @ split_ws_acc [] (drop (ws_len (c # s)) (c # s)))"
  by pat_completeness auto
termination
  by (relation "measure (\<lambda>(acc, s). length s)") auto

definition split_whitespace :: "string \<Rightarrow> string list" where
  "split_whitespace s = split_ws_acc [] s"

fun join :: "string \<Rightarrow> string list \<Rightarrow> string" where
  "join sep [] = []"
| "join sep [x] = x"
| "join sep (x # y # ys) = x @ sep @ join sep (y # ys)"

subsection \<open>Numbers\<close>

text \<open>
  The \<open>FromStr\<close> instances: an optional \<open>+\<close> (also \<open>-\<close> for a signed type), then at least
  one decimal digit and nothing else; a value out of range is an error.
\<close>

definition digit_value :: "char \<Rightarrow> nat option" where
  "digit_value c = (if 48 \<le> code c \<and> code c \<le> 57 then Some (code c - 48) else None)"

fun digits_value :: "nat \<Rightarrow> string \<Rightarrow> nat option" where
  "digits_value n [] = Some n"
| "digits_value n (c # s) =
     (case digit_value c of None \<Rightarrow> None | Some d \<Rightarrow> digits_value (10 * n + d) s)"

definition parse_digits :: "string \<Rightarrow> nat option" where
  "parse_digits s = (if s = [] then None else digits_value 0 s)"

definition parse_unsigned :: "nat \<Rightarrow> string \<Rightarrow> nat option" where
  "parse_unsigned bits s =
     (case parse_digits (case s of c # r \<Rightarrow> if c = CHR ''+'' then r else s | [] \<Rightarrow> s) of
        None \<Rightarrow> None
      | Some n \<Rightarrow> if n < 2 ^ bits then Some n else None)"

definition parse_u8 :: "string \<Rightarrow> u8 option" where
  "parse_u8 s = map_option of_nat (parse_unsigned 8 s)"

definition parse_u32 :: "string \<Rightarrow> u32 option" where
  "parse_u32 s = map_option of_nat (parse_unsigned 32 s)"

definition parse_u64 :: "string \<Rightarrow> u64 option" where
  "parse_u64 s = map_option of_nat (parse_unsigned 64 s)"

definition parse_i32 :: "string \<Rightarrow> int option" where
  "parse_i32 s =
     (case s of
        c # r \<Rightarrow>
          if c = CHR ''-'' then
            (case parse_digits r of
               None \<Rightarrow> None
             | Some n \<Rightarrow> if n \<le> 2 ^ 31 then Some (- int n) else None)
          else map_option int (parse_unsigned 31 s)
      | [] \<Rightarrow> None)"

fun show_nat :: "nat \<Rightarrow> string" where
  "show_nat n = (if n < 10 then [char_of (48 + n)] else show_nat (n div 10) @ [char_of (48 + n mod 10)])"

declare show_nat.simps [simp del]

text \<open>\<open>{:0w}\<close>: decimal, padded with zeros on the left to at least \<open>w\<close> digits.\<close>

definition show_padded :: "nat \<Rightarrow> nat \<Rightarrow> string" where
  "show_padded w n = (let s = show_nat n in replicate (w - length s) (CHR ''0'') @ s)"

lemma digits_value_append:
  "digits_value n (s @ t) =
     (case digits_value n s of None \<Rightarrow> None | Some m \<Rightarrow> digits_value m t)"
  by (induction n s rule: digits_value.induct) (auto split: option.splits)

lemma digits_value_show_nat: "digits_value 0 (show_nat n) = Some n"
proof (induction n rule: show_nat.induct)
  case (1 n)
  show ?case
  proof (cases "n < 10")
    case True
    then show ?thesis by (simp add: show_nat.simps digit_value_def)
  next
    case False
    have "digit_value (char_of (48 + n mod 10)) = Some (n mod 10)"
      by (simp add: digit_value_def)
    with False "1.IH" show ?thesis
      by (subst show_nat.simps) (simp add: digits_value_append)
  qed
qed

lemma show_nat_nonempty [simp]: "show_nat n \<noteq> []"
  by (subst show_nat.simps) simp

text \<open>Printing then parsing a number gives it back.\<close>

lemma parse_digits_show_nat [simp]: "parse_digits (show_nat n) = Some n"
  by (simp add: parse_digits_def digits_value_show_nat)

lemma show_nat_inject: "show_nat m = show_nat n \<longleftrightarrow> m = n"
  by (metis option.inject parse_digits_show_nat)

end
