(* ===== verification/Errors.thy ===== *)
theory Errors
  imports Text
begin

text \<open>
  \<open>rust/src/error.rs\<close>: the program's error type, its \<open>Display\<close> text, its error source,
  the conversion from \<open>std::io::Error\<close> that the \<open>?\<close> operator applies, and the exit code
  of each error. An I/O error of the standard library is its kind and its message.
\<close>

datatype io_kind =
  UnexpectedEof | Interrupted | InvalidData | InvalidInput | WriteZero | NotFound | OtherKind

datatype io_error = Io_Error (io_kind: io_kind) (io_msg: string)

datatype pipek1_error =
    WireCorruption string
  | AuthFailure string
  | UsageError string
  | Io io_error

fun fmt_error :: "pipek1_error \<Rightarrow> string" where
  "fmt_error (WireCorruption msg) = ''Wire corruption: '' @ msg"
| "fmt_error (AuthFailure msg) = ''Authentication failure: '' @ msg"
| "fmt_error (UsageError msg) = ''Usage error: '' @ msg"
| "fmt_error (Io err) = ''I/O error: '' @ io_msg err"

fun error_source :: "pipek1_error \<Rightarrow> io_error option" where
  "error_source (Io err) = Some err"
| "error_source _ = None"

definition from_io :: "io_error \<Rightarrow> pipek1_error" where
  "from_io err = Io err"

fun exit_code :: "pipek1_error \<Rightarrow> int" where
  "exit_code (UsageError _) = 2"
| "exit_code (WireCorruption _) = 1"
| "exit_code (AuthFailure _) = 1"
| "exit_code (Io _) = 1"

lemma exit_code_range: "exit_code e = 1 \<or> exit_code e = 2"
  by (cases e) auto

lemma exit_code_2_iff: "exit_code e = 2 \<longleftrightarrow> (\<exists>m. e = UsageError m)"
  by (cases e) auto

lemma error_source_iff: "error_source e = Some i \<longleftrightarrow> e = from_io i"
  by (cases e) (auto simp: from_io_def)

end
