(* ===== verification/Runtime.thy ===== *)
theory Runtime
  imports Errors
begin

text \<open>
  The standard library's input and output as the program uses it, over an explicit world:
  a reader is the list of results its future \<open>read\<close> calls return (a piece of data, of any
  length, or an error; a reader with no results left is at end of file), so short reads and
  interruptions are inputs of the model. Standard output accepts \<open>w_room\<close> more bytes before
  it fails (\<open>None\<close>: it never fails). Programs are functions from a world to a result and
  the world they leave, also when they fail, so that what a failing run has already written
  can be stated.
\<close>

subsection \<open>Readers\<close>

datatype rd = Data bytes | Fail io_error

type_synonym reader = "rd list"

text \<open>One \<open>read\<close> call with a buffer of \<open>n\<close> bytes.\<close>

fun read :: "nat \<Rightarrow> reader \<Rightarrow> (io_error + bytes) \<times> reader" where
  "read n [] = (Inr [], [])"
| "read n (Data bs # rs) =
     (if length bs \<le> n then (Inr bs, rs) else (Inr (take n bs), Data (drop n bs) # rs))"
| "read n (Fail e # rs) = (Inl e, rs)"

text \<open>The bytes a reader still holds, and the readers that deliver all of them.\<close>

fun rd_bytes :: "reader \<Rightarrow> bytes" where
  "rd_bytes [] = []"
| "rd_bytes (Data bs # rs) = bs @ rd_bytes rs"
| "rd_bytes (Fail e # rs) = rd_bytes rs"

fun interrupt :: "rd \<Rightarrow> bool" where
  "interrupt (Fail e) = (io_kind e = Interrupted)"
| "interrupt (Data _) = False"

fun delivers :: "rd \<Rightarrow> bool" where
  "delivers (Data bs) = (bs \<noteq> [])"
| "delivers (Fail e) = False"

text \<open>
  A live reader never returns an empty read before the end of file and fails with
  \<open>Interrupted\<close> only, which the retrying loops absorb; a smooth one is not interrupted.
\<close>

definition live :: "reader \<Rightarrow> bool" where
  "live rs = list_all (\<lambda>r. delivers r \<or> interrupt r) rs"

definition smooth :: "reader \<Rightarrow> bool" where
  "smooth rs = list_all delivers rs"

definition rd_weight :: "reader \<Rightarrow> nat" where
  "rd_weight rs = length rs + length (rd_bytes rs)"

lemma live_simps [simp]:
  "live []"
  "live (Data bs # rs) \<longleftrightarrow> bs \<noteq> [] \<and> live rs"
  "live (Fail e # rs) \<longleftrightarrow> io_kind e = Interrupted \<and> live rs"
  by (simp_all add: live_def)

lemma smooth_simps [simp]:
  "smooth []"
  "smooth (Data bs # rs) \<longleftrightarrow> bs \<noteq> [] \<and> smooth rs"
  "\<not> smooth (Fail e # rs)"
  by (simp_all add: smooth_def)

lemma smooth_live: "smooth rs \<Longrightarrow> live rs"
  by (auto simp: smooth_def live_def list_all_iff)

lemma read_weight:
  "read n rs = (r, rs') \<Longrightarrow> rs \<noteq> [] \<Longrightarrow> 0 < n \<Longrightarrow> rd_weight rs' < rd_weight rs"
  by (cases rs rule: rd_bytes.cases) (auto simp: rd_weight_def split: if_splits)

lemma read_bytes:
  "read n rs = (Inr bs, rs') \<Longrightarrow> rd_bytes rs = bs @ rd_bytes rs' \<and> length bs \<le> n"
  by (cases rs rule: rd_bytes.cases) (auto split: if_splits)

lemma read_err_bytes: "read n rs = (Inl e, rs') \<Longrightarrow> rs = Fail e # rs'"
  by (cases rs rule: rd_bytes.cases) (auto split: if_splits)

lemma read_live:
  "read n rs = (r, rs') \<Longrightarrow> live rs \<Longrightarrow> 0 < n \<Longrightarrow> live rs'"
  by (cases rs rule: rd_bytes.cases) (auto split: if_splits)

lemma read_live_eof:
  "read n rs = (Inr [], rs') \<Longrightarrow> live rs \<Longrightarrow> 0 < n \<Longrightarrow> rs = [] \<and> rs' = []"
  by (cases rs rule: rd_bytes.cases) (auto split: if_splits)

lemma read_live_err: "read n rs = (Inl e, rs') \<Longrightarrow> live rs \<Longrightarrow> io_kind e = Interrupted \<and> live rs'"
  by (cases rs rule: rd_bytes.cases) (auto split: if_splits)

lemma read_nonempty_weight:
  "(Inr bs, rs') = read n rs \<Longrightarrow> bs \<noteq> [] \<Longrightarrow> 0 < n \<Longrightarrow> rd_weight rs' < rd_weight rs"
  by (metis Inr_inject Pair_inject read.simps(1) read_weight)

lemma read_err_weight: "(Inl e, rs') = read n rs \<Longrightarrow> 0 < n \<Longrightarrow> rd_weight rs' < rd_weight rs"
  by (metis Pair_inject read.simps(1) read_weight sum.distinct(1))

text \<open>
  The read loop that \<open>read_exact\<close>, \<open>read_to_end\<close> under \<open>take\<close> and the program's own
  \<open>fill_buffer\<close> share: read until the buffer of \<open>n\<close> bytes is full or a read returns
  nothing, retrying interrupted reads. It returns the bytes stored so far.
\<close>

function read_loop :: "nat \<Rightarrow> bytes \<Rightarrow> reader \<Rightarrow> (io_error + bytes) \<times> reader" where
  "read_loop n acc rs =
     (if length acc < n then
        (case read (n - length acc) rs of
           (Inr bs, rs') \<Rightarrow>
             if bs = [] then (Inr acc, rs') else read_loop n (acc @ bs) rs'
         | (Inl e, rs') \<Rightarrow>
             if io_kind e = Interrupted then read_loop n acc rs' else (Inl e, rs'))
      else (Inr acc, rs))"
  by pat_completeness auto

termination
  by (relation "measure (\<lambda>(n, acc, rs). rd_weight rs)")
     (auto intro: read_nonempty_weight read_err_weight)

declare read_loop.simps [simp del]

lemma read_loop_full [simp]: "n \<le> length acc \<Longrightarrow> read_loop n acc rs = (Inr acc, rs)"
  by (simp add: read_loop.simps)

lemma read_loop_bytes:
  "read_loop n acc rs = (Inr bs, rs') \<Longrightarrow> length acc \<le> n \<Longrightarrow>
     bs @ rd_bytes rs' = acc @ rd_bytes rs \<and> length bs \<le> n"
proof (induction n acc rs rule: read_loop.induct)
  case (1 n acc rs)
  show ?case
  proof (cases "length acc < n")
    case False
    with "1.prems" show ?thesis by simp
  next
    case True
    obtain r rs1 where rd: "read (n - length acc) rs = (r, rs1)" by fastforce
    show ?thesis
    proof (cases r)
      case (Inl e)
      from read_err_bytes [OF rd [unfolded Inl]] have "rd_bytes rs = rd_bytes rs1" by simp
      with "1.IH"(1) [OF True rd [symmetric] Inl] "1.prems" rd True Inl show ?thesis
        by (auto simp: read_loop.simps [of n acc rs] split: if_splits)
    next
      case (Inr cs)
      from read_bytes [OF rd [unfolded Inr]] True
      have "rd_bytes rs = cs @ rd_bytes rs1" "length (acc @ cs) \<le> n" by auto
      with "1.IH"(2) [OF True rd [symmetric] Inr] "1.prems" rd True Inr show ?thesis
        by (auto simp: read_loop.simps [of n acc rs] split: if_splits)
    qed
  qed
qed

text \<open>
  On a live reader the loop returns exactly the next \<open>n\<close> bytes of the stream (all of them
  when fewer are left), however the stream was cut into reads and however often it was
  interrupted.
\<close>

lemma read_loop_live:
  "live rs \<Longrightarrow> length acc \<le> n \<Longrightarrow>
     \<exists>rs'. read_loop n acc rs = (Inr (take n (acc @ rd_bytes rs)), rs') \<and>
       rd_bytes rs' = drop n (acc @ rd_bytes rs) \<and> live rs'"
proof (induction n acc rs rule: read_loop.induct)
  case (1 n acc rs)
  show ?case
  proof (cases "length acc < n")
    case False
    with "1.prems" show ?thesis by simp
  next
    case True
    obtain r rs1 where rd: "read (n - length acc) rs = (r, rs1)" by fastforce
    show ?thesis
    proof (cases r)
      case (Inl e)
      note e = rd [unfolded Inl]
      from read_live_err [OF e] "1.prems" have "io_kind e = Interrupted" "live rs1" by auto
      moreover from read_err_bytes [OF e] have "rd_bytes rs = rd_bytes rs1" by simp
      ultimately show ?thesis
        using "1.IH"(1) [OF True rd [symmetric] Inl] "1.prems" e True
        by (auto simp: read_loop.simps [of n acc rs])
    next
      case (Inr cs)
      note cs = rd [unfolded Inr]
      from read_bytes [OF cs] True
      have b: "rd_bytes rs = cs @ rd_bytes rs1" "length (acc @ cs) \<le> n" by auto
      have l: "live rs1" using read_live [OF rd] "1.prems" True by simp
      show ?thesis
      proof (cases "cs = []")
        case True
        with read_live_eof cs "1.prems" \<open>length acc < n\<close> have "rs = []" "rs1 = []" by auto
        with \<open>length acc < n\<close> show ?thesis by (simp add: read_loop.simps [of n acc "[]"])
      next
        case False
        with "1.IH"(2) [OF True rd [symmetric] Inr False l] b cs True show ?thesis
          by (auto simp: read_loop.simps [of n acc rs])
      qed
    qed
  qed
qed

text \<open>On a smooth reader the loop leaves a smooth reader.\<close>

lemma read_smooth: "read n rs = (r, rs') \<Longrightarrow> smooth rs \<Longrightarrow> 0 < n \<Longrightarrow> smooth rs'"
  by (cases rs rule: rd_bytes.cases) (auto split: if_splits)

lemma read_loop_smooth: "read_loop n acc rs = (r, rs') \<Longrightarrow> smooth rs \<Longrightarrow> smooth rs'"
proof (induction n acc rs rule: read_loop.induct)
  case (1 n acc rs)
  show ?case
  proof (cases "length acc < n")
    case False
    with "1.prems" show ?thesis by simp
  next
    case True
    obtain q rs1 where rd: "read (n - length acc) rs = (q, rs1)" by fastforce
    have "smooth rs1" using read_smooth [OF rd "1.prems"(2)] True by simp
    with "1.IH" [OF True rd [symmetric]] "1.prems"(1) rd True show ?thesis
      by (cases q) (auto simp: read_loop.simps [of n acc rs] split: if_splits)
  qed
qed

text \<open>\<open>read_to_end\<close>: read until a read returns nothing, retrying interrupted reads.\<close>

fun read_to_end :: "bytes \<Rightarrow> reader \<Rightarrow> (io_error + bytes) \<times> reader" where
  "read_to_end acc [] = (Inr acc, [])"
| "read_to_end acc (Data bs # rs) = (if bs = [] then (Inr acc, rs) else read_to_end (acc @ bs) rs)"
| "read_to_end acc (Fail e # rs) =
     (if io_kind e = Interrupted then read_to_end acc rs else (Inl e, rs))"

lemma read_to_end_live: "live rs \<Longrightarrow> read_to_end acc rs = (Inr (acc @ rd_bytes rs), [])"
  by (induction acc rs rule: read_to_end.induct) auto

definition utf8_error :: io_error where
  "utf8_error = Io_Error InvalidData ''stream did not contain valid UTF-8''"

definition eof_error :: io_error where
  "eof_error = Io_Error UnexpectedEof ''failed to fill whole buffer''"

definition read_to_string :: "reader \<Rightarrow> io_error + string" where
  "read_to_string rs =
     (case read_to_end [] rs of
        (Inl e, _) \<Rightarrow> Inl e
      | (Inr bs, _) \<Rightarrow> (case from_utf8 bs of None \<Rightarrow> Inl utf8_error | Some s \<Rightarrow> Inr s))"

text \<open>\<open>read_exact\<close>: the read loop, and an error when the buffer could not be filled.\<close>

definition read_exact :: "nat \<Rightarrow> reader \<Rightarrow> (io_error + bytes) \<times> reader" where
  "read_exact n rs =
     (case read_loop n [] rs of
        (Inl e, rs') \<Rightarrow> (Inl e, rs')
      | (Inr bs, rs') \<Rightarrow> if length bs < n then (Inl eof_error, rs') else (Inr bs, rs'))"

lemma read_exact_Inr:
  "read_exact n rs = (Inr bs, rs') \<Longrightarrow> rd_bytes rs = bs @ rd_bytes rs' \<and> length bs = n"
  using read_loop_bytes [of n "[]" rs]
  by (fastforce simp: read_exact_def split: prod.splits sum.splits if_splits)

lemma read_exact_live:
  assumes "live rs" and "n \<le> length (rd_bytes rs)"
  shows "\<exists>rs'. read_exact n rs = (Inr (take n (rd_bytes rs)), rs') \<and>
           rd_bytes rs' = drop n (rd_bytes rs) \<and> live rs'"
  using read_loop_live [OF assms(1), of "[]" n] assms(2)
  by (auto simp: read_exact_def)

lemma read_exact_live_short:
  assumes "live rs" and "length (rd_bytes rs) < n"
  shows "\<exists>rs'. read_exact n rs = (Inl eof_error, rs')"
  using read_loop_live [OF assms(1), of "[]" n] assms(2)
  by (auto simp: read_exact_def)

subsection \<open>The world\<close>

text \<open>
  \<open>w_environ\<close> is the process's environment block: each entry is the memory of one
  \<open>KEY=value\<close> string and whether \<open>environ\<close> still points to it, so that removing a variable
  and wiping its memory are different effects. \<open>w_fds\<close> gives what reading an inherited
  descriptor (other than the standard streams) returns and \<open>w_fd_flags\<close> its flags, negative
  when it is not open. The temporary directory may support anonymous files (\<open>w_o_tmpfile\<close>), a
  named one may fail to open, and \<open>w_links\<close> lists the names the program left in it. The
  temporary file has room for \<open>w_disk_room\<close> bytes, and reading it back returns \<open>w_disk_view\<close> of what was written:
  \<open>\<lambda>d. [Data d]\<close> for a faithful disk, anything for a tampered or failing one.
\<close>

record env_cell =
  cell_text :: string
  cell_linked :: bool

record world =
  w_stdin :: reader
  w_stdout :: bytes
  w_room :: "nat option"
  w_out_msg :: string
  w_flush_err :: "io_error option"
  w_stderr :: "string list"
  w_rng :: "nat \<Rightarrow> u8"
  w_rng_pos :: nat
  w_clock :: "nat option"
  w_environ :: "env_cell list"
  w_dumpable :: bool
  w_fds :: "int \<Rightarrow> reader"
  w_fd_flags :: "int \<Rightarrow> int"
  w_closed :: "int list"
  w_fd_out :: "(int \<times> string) list"
  w_files :: "string \<Rightarrow> io_error + bytes"
  w_is_file :: "string \<Rightarrow> bool"
  w_pid :: nat
  w_o_tmpfile :: bool
  w_tmpfile :: "io_error option"
  w_unlink_ok :: bool
  w_links :: "string list"
  w_disk_room :: "nat option"
  w_disk_view :: "bytes \<Rightarrow> reader"
  w_seek :: "io_error option"

type_synonym 'a io = "world \<Rightarrow> (pipek1_error, 'a) res \<times> world"

subsection \<open>Programs\<close>

definition io_return :: "'a \<Rightarrow> 'a io" where
  "io_return x w = (Ok x, w)"

definition io_err :: "pipek1_error \<Rightarrow> 'a io" where
  "io_err e w = (Err e, w)"

definition io_panic :: "string \<Rightarrow> 'a io" where
  "io_panic s w = (Panic s, w)"

definition io_diverge :: "'a io" where
  "io_diverge w = (Diverge, w)"

text \<open>Sequencing: the \<open>?\<close> operator, which returns from the function on any error.\<close>

definition io_bind :: "'a io \<Rightarrow> ('a \<Rightarrow> 'b io) \<Rightarrow> 'b io" where
  "io_bind m f w =
     (case m w of
        (Ok x, w') \<Rightarrow> f x w'
      | (Err e, w') \<Rightarrow> (Err e, w')
      | (Panic s, w') \<Rightarrow> (Panic s, w')
      | (Diverge, w') \<Rightarrow> (Diverge, w'))"

text \<open>\<open>r.map_err(f)?\<close> and \<open>r?\<close> for a \<open>Result\<close> with an I/O error; \<open>opt.unwrap()\<close>.\<close>

definition io_try :: "('e \<Rightarrow> pipek1_error) \<Rightarrow> 'e + 'a \<Rightarrow> 'a io" where
  "io_try f r = (case r of Inl e \<Rightarrow> io_err (f e) | Inr x \<Rightarrow> io_return x)"

definition io_unwrap :: "string \<Rightarrow> 'a option \<Rightarrow> 'a io" where
  "io_unwrap s r = (case r of None \<Rightarrow> io_panic s | Some x \<Rightarrow> io_return x)"

definition io_when :: "bool \<Rightarrow> unit io \<Rightarrow> unit io" where
  "io_when b m = (if b then m else io_return ())"

definition io_get :: "(world \<Rightarrow> 'a) \<Rightarrow> 'a io" where
  "io_get f w = (Ok (f w), w)"

lemma io_run_simps [simp]:
  "io_return x w = (Ok x, w)"
  "io_err err w = (Err err, w)"
  "io_panic s w = (Panic s, w)"
  "io_diverge w = (Diverge, w)"
  "io_get h w = (Ok (h w), w)"
  by (simp_all add: io_return_def io_err_def io_panic_def io_diverge_def io_get_def)

lemma io_try_simps [simp]:
  "io_try g (Inl e) = io_err (g e)"
  "io_try g (Inr x) = io_return x"
  by (simp_all add: io_try_def)

lemma io_unwrap_simps [simp]:
  "io_unwrap s None = io_panic s"
  "io_unwrap s (Some x) = io_return x"
  by (simp_all add: io_unwrap_def)

lemma io_when_simps [simp]:
  "io_when True m = m"
  "io_when False m = io_return ()"
  by (simp_all add: io_when_def)

lemma io_bind_simps [simp]:
  "io_bind (io_return x) f = f x"
  "io_bind (io_err e) f = io_err e"
  "io_bind (io_panic s) f = io_panic s"
  "io_bind io_diverge f = io_diverge"
  by (simp_all add: io_bind_def fun_eq_iff)

lemma io_bind_Ok: "m w = (Ok x, w') \<Longrightarrow> io_bind m f w = f x w'"
  by (simp add: io_bind_def)

lemma io_bind_Err: "m w = (Err e, w') \<Longrightarrow> io_bind m f w = (Err e, w')"
  by (simp add: io_bind_def)

lemma io_bind_assoc: "io_bind (io_bind m f) g = io_bind m (\<lambda>x. io_bind (f x) g)"
  by (auto simp: io_bind_def fun_eq_iff split: prod.splits res.splits)

lemma io_bind_OkE:
  assumes "io_bind m f w = (Ok y, w'')"
  obtains x w' where "m w = (Ok x, w')" and "f x w' = (Ok y, w'')"
  using assms by (auto simp: io_bind_def split: prod.splits res.splits)

lemma io_try_OkE:
  assumes "io_try g r w = (Ok x, w')"
  obtains "r = Inr x" and "w' = w"
  using assms by (cases r) auto

lemma io_unwrap_OkE:
  assumes "io_unwrap s r w = (Ok x, w')"
  obtains "r = Some x" and "w' = w"
  using assms by (cases r) auto

text \<open>
  \<open>keeps f m\<close>: whatever the outcome of \<open>m\<close>, the part \<open>f\<close> of the world is as before.
  A program that keeps \<open>w_stdout\<close> has released nothing. \<open>grows m\<close>: standard output is only
  appended to.
\<close>

definition keeps :: "(world \<Rightarrow> 'b) \<Rightarrow> 'a io \<Rightarrow> bool" where
  "keeps f m \<longleftrightarrow> (\<forall>w. f (snd (m w)) = f w)"

definition grows :: "'a io \<Rightarrow> bool" where
  "grows m \<longleftrightarrow> (\<forall>w. \<exists>d. w_stdout (snd (m w)) = w_stdout w @ d)"

lemma keepsD: "keeps f m \<Longrightarrow> m w = (r, w') \<Longrightarrow> f w' = f w"
  by (metis keeps_def snd_conv)

lemma keeps_return [quiet_rules]: "keeps f (io_return x)"
  by (simp add: keeps_def)

lemma keeps_err [quiet_rules]: "keeps f (io_err e)"
  by (simp add: keeps_def)

lemma keeps_panic [quiet_rules]: "keeps f (io_panic s)"
  by (simp add: keeps_def)

lemma keeps_diverge [quiet_rules]: "keeps f io_diverge"
  by (simp add: keeps_def)

lemma keeps_get [quiet_rules]: "keeps f (io_get g)"
  by (simp add: keeps_def)

lemma keeps_try [quiet_rules]: "keeps f (io_try g r)"
  by (cases r) (simp_all add: keeps_def)

lemma keeps_unwrap [quiet_rules]: "keeps f (io_unwrap s r)"
  by (cases r) (simp_all add: keeps_def)

lemma keeps_when [quiet_rules]: "keeps f m \<Longrightarrow> keeps f (io_when b m)"
  by (cases b) (simp_all add: keeps_def)

lemma keeps_if [quiet_rules]: "keeps f m \<Longrightarrow> keeps f n \<Longrightarrow> keeps f (if b then m else n)"
  by simp

lemma keeps_case_option [quiet_rules]:
  "keeps f m \<Longrightarrow> (\<And>x. keeps f (n x)) \<Longrightarrow> keeps f (case r of None \<Rightarrow> m | Some x \<Rightarrow> n x)"
  by (cases r) auto

lemma keeps_case_sum [quiet_rules]:
  "(\<And>e. keeps f (m e)) \<Longrightarrow> (\<And>x. keeps f (n x)) \<Longrightarrow> keeps f (case r of Inl e \<Rightarrow> m e | Inr x \<Rightarrow> n x)"
  by (cases r) auto

lemma keeps_case_prod [quiet_rules]:
  "(\<And>a b. keeps f (m a b)) \<Longrightarrow> keeps f (case p of (a, b) \<Rightarrow> m a b)"
  by (cases p) auto

lemma keeps_bind [quiet_rules]:
  "keeps f m \<Longrightarrow> (\<And>x. keeps f (n x)) \<Longrightarrow> keeps f (io_bind m n)"
  by (auto simp: keeps_def io_bind_def split: prod.splits res.splits) (metis snd_conv)+

lemma keeps_grows: "keeps w_stdout m \<Longrightarrow> grows m"
  by (auto simp: keeps_def grows_def)

lemma grows_bind: "grows m \<Longrightarrow> (\<And>x. grows (n x)) \<Longrightarrow> grows (io_bind m n)"
  unfolding grows_def io_bind_def
  by (auto split: prod.splits res.splits) (metis append.assoc snd_conv)+

subsection \<open>Standard streams\<close>

text \<open>
  \<open>write_all\<close> to standard output stores the bytes; when the room runs out a part is stored
  and the error is returned. Standard error never fails in the model.
\<close>

definition stdout_write_all :: "bytes \<Rightarrow> (io_error + unit) io" where
  "stdout_write_all bs w =
     (case w_room w of
        None \<Rightarrow> (Ok (Inr ()), w\<lparr>w_stdout := w_stdout w @ bs\<rparr>)
      | Some r \<Rightarrow>
          if length bs \<le> r
          then (Ok (Inr ()), w\<lparr>w_stdout := w_stdout w @ bs, w_room := Some (r - length bs)\<rparr>)
          else (Ok (Inl (Io_Error OtherKind (w_out_msg w))),
                w\<lparr>w_stdout := w_stdout w @ take r bs, w_room := Some 0\<rparr>))"

definition stdout_flush :: "(io_error + unit) io" where
  "stdout_flush w = (case w_flush_err w of None \<Rightarrow> (Ok (Inr ()), w) | Some e \<Rightarrow> (Ok (Inl e), w))"

text \<open>\<open>println!\<close> panics when standard output cannot be written.\<close>

definition println :: "string \<Rightarrow> unit io" where
  "println s =
     io_bind (stdout_write_all (str_bytes (s @ [newline])))
       (\<lambda>r. case r of
          Inl e \<Rightarrow> io_panic (''failed printing to stdout: '' @ io_msg e)
        | Inr _ \<Rightarrow> io_return ())"

definition eprintln :: "string \<Rightarrow> unit io" where
  "eprintln s w = (Ok (), w\<lparr>w_stderr := w_stderr w @ [s]\<rparr>)"

definition stdin_read :: "nat \<Rightarrow> (io_error + bytes) io" where
  "stdin_read n w = (case read n (w_stdin w) of (r, rs) \<Rightarrow> (Ok r, w\<lparr>w_stdin := rs\<rparr>))"

definition stdin_read_exact :: "nat \<Rightarrow> (io_error + bytes) io" where
  "stdin_read_exact n w = (case read_exact n (w_stdin w) of (r, rs) \<Rightarrow> (Ok r, w\<lparr>w_stdin := rs\<rparr>))"

definition stdin_read_to_end :: "(io_error + bytes) io" where
  "stdin_read_to_end w = (case read_to_end [] (w_stdin w) of (r, rs) \<Rightarrow> (Ok r, w\<lparr>w_stdin := rs\<rparr>))"

subsection \<open>Randomness, clock, descriptors, files, environment\<close>

definition os_random :: "nat \<Rightarrow> bytes io" where
  "os_random n w =
     (Ok (map (w_rng w) [w_rng_pos w ..< w_rng_pos w + n]), w\<lparr>w_rng_pos := w_rng_pos w + n\<rparr>)"

definition bad_fd :: io_error where
  "bad_fd = Io_Error OtherKind ''Bad file descriptor (os error 9)''"

text \<open>\<open>File::from_raw_fd\<close> panics on \<open>-1\<close>; a closed descriptor reads as \<open>EBADF\<close>.\<close>

definition fd_open :: "int \<Rightarrow> reader io" where
  "fd_open fd w =
     (if fd = -1 then (Panic ''fd != -1'', w)
      else (Ok (if fd \<in> set (w_closed w) then [Fail bad_fd] else w_fds w fd), w))"

definition fd_close :: "int \<Rightarrow> unit io" where
  "fd_close fd w = (Ok (), w\<lparr>w_closed := fd # w_closed w\<rparr>)"

definition fs_read :: "string \<Rightarrow> (io_error + bytes) io" where
  "fs_read path w = (Ok (w_files w path), w)"

definition fs_read_to_string :: "string \<Rightarrow> (io_error + string) io" where
  "fs_read_to_string path w =
     (Ok (case w_files w path of
            Inl e \<Rightarrow> Inl e
          | Inr bs \<Rightarrow> (case from_utf8 bs of None \<Rightarrow> Inl utf8_error | Some s \<Rightarrow> Inr s)), w)"

text \<open>\<open>env::var(key).ok()\<close>: the first linked entry of that name, if it is valid UTF-8.\<close>

fun env_lookup :: "string \<Rightarrow> env_cell list \<Rightarrow> string option" where
  "env_lookup key [] = None"
| "env_lookup key (cl # cs) =
     (if cell_linked cl \<and> starts_with (cell_text cl) (key @ ''='')
      then strip_prefix (cell_text cl) (key @ ''='') else env_lookup key cs)"

definition env_var :: "string \<Rightarrow> string option io" where
  "env_var key w =
     (Ok (case env_lookup key (w_environ w) of
            None \<Rightarrow> None
          | Some v \<Rightarrow> if utf8_valid (str_bytes v) then Some v else None), w)"

text \<open>None of these touch standard output, except the two that write it.\<close>

lemma keeps_primitives [quiet_rules]:
  "keeps w_stdout (eprintln s)"
  "keeps w_stdout (stdin_read n)"
  "keeps w_stdout (stdin_read_exact n)"
  "keeps w_stdout stdin_read_to_end"
  "keeps w_stdout (os_random n)"
  "keeps w_stdout (fd_open fd)"
  "keeps w_stdout (fd_close fd)"
  "keeps w_stdout (fs_read path)"
  "keeps w_stdout (fs_read_to_string path)"
  "keeps w_stdout (env_var key)"
  "keeps w_stdout stdout_flush"
  by (auto simp: keeps_def eprintln_def stdin_read_def stdin_read_exact_def stdin_read_to_end_def
      os_random_def fd_open_def fd_close_def fs_read_def fs_read_to_string_def env_var_def
      stdout_flush_def split: prod.splits option.splits)

lemma grows_write_all: "grows (stdout_write_all bs)"
  by (auto simp: grows_def stdout_write_all_def split: option.splits)

lemma stdout_write_all_room:
  "w_room w = None \<Longrightarrow>
     stdout_write_all bs w = (Ok (Inr ()), w\<lparr>w_stdout := w_stdout w @ bs\<rparr>)"
  by (simp add: stdout_write_all_def)

text \<open>A successful write stores exactly the bytes; a failing one a proper prefix of them.\<close>

lemma stdout_write_all_Inr:
  "stdout_write_all bs w = (Ok (Inr u), w') \<Longrightarrow> w_stdout w' = w_stdout w @ bs"
  by (auto simp: stdout_write_all_def split: option.splits if_splits)

lemma length_os_random: "os_random n w = (Ok bs, w') \<Longrightarrow> length bs = n"
  by (auto simp: os_random_def)

text \<open>A printed line is its text and a line feed.\<close>

lemma println_room:
  "w_room w = None \<Longrightarrow>
     println s w = (Ok (), w\<lparr>w_stdout := w_stdout w @ str_bytes (s @ [newline])\<rparr>)"
  by (simp add: println_def io_bind_def stdout_write_all_def)

text \<open>
  A world in which nothing outside the program fails: output and disk never run out, the
  temporary file opens, and the disk returns what was written.
\<close>

definition faithful :: "world \<Rightarrow> bool" where
  "faithful w \<longleftrightarrow>
     w_room w = None \<and> w_flush_err w = None \<and> w_tmpfile w = None \<and> w_disk_room w = None \<and>
     w_seek w = None \<and> w_disk_view w = (\<lambda>d. [Data d]) \<and>
     \<not> contains (case env_lookup ''TMPDIR'' (w_environ w) of None \<Rightarrow> [] | Some v \<Rightarrow> v) [CHR 0x00]"

lemma faithful_stable [simp]:
  "faithful (w\<lparr>w_stdin := rs\<rparr>) = faithful w"
  "faithful (w\<lparr>w_stdout := bs\<rparr>) = faithful w"
  "faithful (w\<lparr>w_stderr := ls\<rparr>) = faithful w"
  "faithful (w\<lparr>w_rng_pos := n\<rparr>) = faithful w"
  "faithful (w\<lparr>w_links := ps\<rparr>) = faithful w"
  by (simp_all add: faithful_def)

end
