(* ===== verification/Primitives.thy ===== *)
theory Primitives
  imports Runtime
begin

text \<open>
  The third-party crates the program calls, as one record of functions that every
  definition using them takes as its first argument: \<open>sha2\<close>, \<open>hmac\<close>, \<open>hkdf\<close>,
  \<open>chacha20poly1305\<close>, \<open>k256\<close>, \<open>bech32\<close>, \<open>hex\<close>, \<open>base64\<close>, \<open>bip39\<close> and \<open>bip32\<close>. A function
  that can fail returns the crate's error text on the left. Keys, public keys and
  signatures are the byte strings the crates parse them from, which determine them; the
  parsing functions return the error or nothing. Streaming digests are functions of the
  bytes they were fed.

  The laws below state documented behaviour of these crates. They are hypotheses of the
  theorems that need them, and \<open>demo\<close> is a concrete record that satisfies all of them,
  used by the witnesses only.
\<close>

datatype affine = Infinity | Affine bytes bytes

record crypto =
  sha256 :: "bytes \<Rightarrow> bytes"
  hmac_sha256 :: "bytes \<Rightarrow> bytes \<Rightarrow> bytes"
  hmac_sha512 :: "bytes \<Rightarrow> bytes \<Rightarrow> bytes"
  hkdf_expand :: "bytes \<Rightarrow> bytes \<Rightarrow> bytes \<Rightarrow> nat \<Rightarrow> string + bytes"
  aead_seal :: "bytes \<Rightarrow> bytes \<Rightarrow> bytes \<Rightarrow> bytes \<Rightarrow> string + (bytes \<times> bytes)"
  aead_open :: "bytes \<Rightarrow> bytes \<Rightarrow> bytes \<Rightarrow> bytes \<Rightarrow> bytes \<Rightarrow> string + bytes"
  signing_key :: "bytes \<Rightarrow> string + unit"
  verifying_key_of :: "bytes \<Rightarrow> bytes"
  sign_raw :: "bytes \<Rightarrow> bytes \<Rightarrow> bytes \<Rightarrow> string + bytes"
  verifying_key :: "bytes \<Rightarrow> string + unit"
  signature_parse :: "bytes \<Rightarrow> string + unit"
  verify_raw :: "bytes \<Rightarrow> bytes \<Rightarrow> bytes \<Rightarrow> string + unit"
  nonzero_scalar :: "bytes \<Rightarrow> string + unit"
  from_sec1 :: "bytes \<Rightarrow> string + affine"
  point_mul :: "affine \<Rightarrow> bytes \<Rightarrow> affine"
  bech32_decode :: "string \<Rightarrow> string + (string \<times> bytes)"
  bech32_encode :: "string \<Rightarrow> bytes \<Rightarrow> string option"
  hex_decode :: "string \<Rightarrow> string + bytes"
  hex_encode :: "bytes \<Rightarrow> string"
  base64_decode :: "string \<Rightarrow> string + bytes"
  base64_encode :: "bytes \<Rightarrow> string"
  mnemonic_parse :: "string \<Rightarrow> string + unit"
  mnemonic_seed :: "string \<Rightarrow> string \<Rightarrow> bytes"
  xprv_new :: "bytes \<Rightarrow> string + bytes"
  path_parse :: "string \<Rightarrow> string + u32 list"
  xprv_child :: "bytes \<Rightarrow> u32 \<Rightarrow> string + bytes"
  xprv_key :: "bytes \<Rightarrow> bytes"

subsection \<open>Laws\<close>

text \<open>Digest sizes: SHA-256 and HMAC-SHA256 return 32 bytes, HMAC-SHA512 64, HKDF what it is asked for.\<close>

definition digest_laws :: "crypto \<Rightarrow> bool" where
  "digest_laws c \<longleftrightarrow>
     (\<forall>m. length (sha256 c m) = 32) \<and>
     (\<forall>k m. length (hmac_sha256 c k m) = 32) \<and>
     (\<forall>k m. length (hmac_sha512 c k m) = 64) \<and>
     (\<forall>s i n l. l \<le> 255 * 32 \<longrightarrow> (\<exists>k. hkdf_expand c s i n l = Inr k \<and> length k = l))"

text \<open>
  ChaCha20-Poly1305 (RFC 8439): sealing under a 32-byte key and a 12-byte nonce succeeds for
  messages below the cipher's limit (here: up to \<open>2 ^ 32\<close> bytes), keeps the length and makes
  a 16-byte tag; opening what was sealed gives the plaintext back; and since the cipher is
  deterministic, what opens is what sealing the plaintext would have made, at the same length.
\<close>

definition aead_laws :: "crypto \<Rightarrow> bool" where
  "aead_laws c \<longleftrightarrow>
     (\<forall>k n a p. length k = 32 \<longrightarrow> length n = 12 \<longrightarrow> length p \<le> 2 ^ 32 \<longrightarrow>
        (\<exists>ct tag. aead_seal c k n a p = Inr (ct, tag) \<and> length ct = length p \<and> length tag = 16 \<and>
           aead_open c k n a ct tag = Inr p)) \<and>
     (\<forall>k n a ct tag p. aead_open c k n a ct tag = Inr p \<longrightarrow>
        aead_seal c k n a p = Inr (ct, tag) \<and> length p = length ct)"

text \<open>
  Elliptic-curve Diffie-Hellman on x-only keys: for two valid secrets, lifting either public
  key and multiplying by the other secret gives points with the same x coordinate.
\<close>

definition ecdh_laws :: "crypto \<Rightarrow> bool" where
  "ecdh_laws c \<longleftrightarrow>
     (\<forall>a b. signing_key c a = Inr () \<longrightarrow> signing_key c b = Inr () \<longrightarrow>
        length (verifying_key_of c a) = 32 \<and> nonzero_scalar c a = Inr () \<and>
        (\<exists>P Q x y y'. from_sec1 c (2 # verifying_key_of c b) = Inr P \<and>
           from_sec1 c (2 # verifying_key_of c a) = Inr Q \<and>
           point_mul c P a = Affine x y \<and> point_mul c Q b = Affine x y'))"

text \<open>
  BIP-340: a valid secret signs every 32-byte message, the signature has 64 bytes, parses and
  verifies under the secret's public key.
\<close>

definition schnorr_laws :: "crypto \<Rightarrow> bool" where
  "schnorr_laws c \<longleftrightarrow>
     (\<forall>k m aux. signing_key c k = Inr () \<longrightarrow> length m = 32 \<longrightarrow> length aux = 32 \<longrightarrow>
        length (verifying_key_of c k) = 32 \<and> verifying_key c (verifying_key_of c k) = Inr () \<and>
        (\<exists>sig. sign_raw c k m aux = Inr sig \<and> length sig = 64 \<and> signature_parse c sig = Inr () \<and>
           verify_raw c (verifying_key_of c k) m sig = Inr ()))"

text \<open>
  The text encodings: hexadecimal of a byte string has two characters of \<open>0-9a-f\<close> per byte and
  decodes to it; Bech32 encodes 32 bytes as \<open>hrp\<close>, the separator \<open>1\<close> and data in its own
  alphabet, and decodes what it encoded; standard Base64 uses \<open>A-Za-z0-9+/=\<close> and decodes what it encoded.
\<close>

definition hex_char :: "char \<Rightarrow> bool" where
  "hex_char ch \<longleftrightarrow> (48 \<le> code ch \<and> code ch \<le> 57) \<or> (97 \<le> code ch \<and> code ch \<le> 102)"

definition bech32_char :: "char \<Rightarrow> bool" where
  "bech32_char ch \<longleftrightarrow> 48 \<le> code ch \<and> code ch \<le> 122"

definition base64_char :: "char \<Rightarrow> bool" where
  "base64_char ch \<longleftrightarrow>
     (48 \<le> code ch \<and> code ch \<le> 57) \<or> (65 \<le> code ch \<and> code ch \<le> 90) \<or>
     (97 \<le> code ch \<and> code ch \<le> 122) \<or> code ch = 43 \<or> code ch = 47 \<or> code ch = 61"

definition codec_laws :: "crypto \<Rightarrow> bool" where
  "codec_laws c \<longleftrightarrow>
     (\<forall>bs. length (hex_encode c bs) = 2 * length bs \<and> list_all hex_char (hex_encode c bs) \<and>
        hex_decode c (hex_encode c bs) = Inr bs \<and>
        list_all base64_char (base64_encode c bs) \<and> (bs \<noteq> [] \<longrightarrow> base64_encode c bs \<noteq> []) \<and>
        base64_decode c (base64_encode c bs) = Inr bs) \<and>
     (\<forall>hrp bs. hrp \<in> {''npub'', ''nsec''} \<longrightarrow> length bs = 32 \<longrightarrow>
        (\<exists>d. bech32_encode c hrp bs = Some (hrp @ ''1'' @ d) \<and> d \<noteq> [] \<and> list_all bech32_char d \<and>
           bech32_decode c (hrp @ ''1'' @ d) = Inr (hrp, bs)))"

lemma aead_seal_ok:
  assumes "aead_laws c" and "length k = 32" and "length n = 12" and "length p \<le> 2 ^ 32"
  obtains ct tag where "aead_seal c k n a p = Inr (ct, tag)" and "length ct = length p"
    and "length tag = 16" and "aead_open c k n a ct tag = Inr p"
  using assms unfolding aead_laws_def by meson

lemma aead_open_seal:
  "aead_laws c \<Longrightarrow> aead_open c k n a ct tag = Inr p \<Longrightarrow>
     aead_seal c k n a p = Inr (ct, tag) \<and> length p = length ct"
  unfolding aead_laws_def by blast

lemma schnorr_sign_ok:
  assumes "schnorr_laws c" and "signing_key c k = Inr ()" and "length m = 32" and "length aux = 32"
  obtains sig where "sign_raw c k m aux = Inr sig" and "length sig = 64"
    and "signature_parse c sig = Inr ()" and "verify_raw c (verifying_key_of c k) m sig = Inr ()"
    and "length (verifying_key_of c k) = 32" and "verifying_key c (verifying_key_of c k) = Inr ()"
  using assms unfolding schnorr_laws_def by meson

end
