(* ===== verification/Demo.thy ===== *)
theory Demo
  imports Primitives
begin

text \<open>
  A concrete instance of the crates' record that satisfies every law of \<open>Primitives\<close>, so
  that the laws are known to be consistent and the witnesses have something to run on. It is
  not cryptography: digests are byte sums, the cipher is the identity with a checksum tag,
  and a shared point is an exclusive or. Also an initial world for the witnesses.
\<close>

definition bsum :: "bytes \<Rightarrow> u8" where
  "bsum bs = foldr (+) bs 0"

definition pad :: "nat \<Rightarrow> u8 \<Rightarrow> bytes" where
  "pad n b = take n (b # replicate n 0)"

definition xor1 :: "bytes \<Rightarrow> bytes" where
  "xor1 bs = map (\<lambda>b. b XOR 1) bs"

definition hex_digit :: "nat \<Rightarrow> char" where
  "hex_digit d = char_of (if d < 10 then 48 + d else 87 + d)"

definition hex_value :: "char \<Rightarrow> nat option" where
  "hex_value ch =
     (if 48 \<le> code ch \<and> code ch \<le> 57 then Some (code ch - 48)
      else if 97 \<le> code ch \<and> code ch \<le> 102 then Some (code ch - 87) else None)"

definition demo_hex :: "bytes \<Rightarrow> string" where
  "demo_hex bs = concat (map (\<lambda>b. [hex_digit (unat b div 16), hex_digit (unat b mod 16)]) bs)"

fun demo_unhex :: "string \<Rightarrow> string + bytes" where
  "demo_unhex [] = Inr []"
| "demo_unhex [a] = Inl ''Odd number of digits''"
| "demo_unhex (a # b # s) =
     (case (hex_value a, hex_value b, demo_unhex s) of
        (Some x, Some y, Inr bs) \<Rightarrow> Inr (of_nat (16 * x + y) # bs)
      | _ \<Rightarrow> Inl ''Invalid character'')"

definition demo_key :: "bytes \<Rightarrow> string + unit" where
  "demo_key k = (if length k = 32 \<and> k \<noteq> replicate 32 0 then Inr () else Inl ''signature error'')"

definition demo_seal :: "bytes \<Rightarrow> bytes \<Rightarrow> bytes \<Rightarrow> bytes \<Rightarrow> string + (bytes \<times> bytes)" where
  "demo_seal k n a p =
     (if length k = 32 \<and> length n = 12 then Inr (p, pad 16 (bsum k + bsum n + bsum a + bsum p))
      else Inl ''aead::Error'')"

definition demo_open :: "bytes \<Rightarrow> bytes \<Rightarrow> bytes \<Rightarrow> bytes \<Rightarrow> bytes \<Rightarrow> string + bytes" where
  "demo_open k n a ct tag =
     (if demo_seal k n a ct = Inr (ct, tag) then Inr ct else Inl ''aead::Error'')"

fun demo_mul :: "affine \<Rightarrow> bytes \<Rightarrow> affine" where
  "demo_mul Infinity s = Infinity"
| "demo_mul (Affine x y) s = Affine (map2 (XOR) x s) y"

fun demo_sec1 :: "bytes \<Rightarrow> string + affine" where
  "demo_sec1 [] = Inl ''crypto error''"
| "demo_sec1 (h # xs) = (if h = 2 \<and> length xs = 32 then Inr (Affine xs xs) else Inl ''crypto error'')"

definition demo_verify :: "bytes \<Rightarrow> bytes \<Rightarrow> bytes \<Rightarrow> string + unit" where
  "demo_verify pk m sig = (if sig = pk @ m then Inr () else Inl ''signature error'')"

definition demo_len :: "nat \<Rightarrow> bytes \<Rightarrow> string + unit" where
  "demo_len n bs = (if length bs = n then Inr () else Inl ''signature error'')"

definition demo_bech32_decode :: "string \<Rightarrow> string + (string \<times> bytes)" where
  "demo_bech32_decode s =
     (case demo_unhex (drop 1 (dropWhile (\<lambda>ch. ch \<noteq> CHR ''1'') s)) of
        Inl e \<Rightarrow> Inl e
      | Inr bs \<Rightarrow> Inr (takeWhile (\<lambda>ch. ch \<noteq> CHR ''1'') s, bs))"

definition demo :: crypto where
  "demo = \<lparr>
     sha256 = (\<lambda>m. pad 32 (bsum m)),
     hmac_sha256 = (\<lambda>k m. pad 32 (bsum k + bsum m)),
     hmac_sha512 = (\<lambda>k m. pad 64 (1 + bsum k + bsum m)),
     hkdf_expand = (\<lambda>s i n l. Inr (pad l (bsum s + bsum i + bsum n))),
     aead_seal = demo_seal,
     aead_open = demo_open,
     signing_key = demo_key,
     verifying_key_of = xor1,
     sign_raw = (\<lambda>k m aux. Inr (xor1 k @ m)),
     verifying_key = demo_len 32,
     signature_parse = demo_len 64,
     verify_raw = demo_verify,
     nonzero_scalar = demo_key,
     from_sec1 = demo_sec1,
     point_mul = demo_mul,
     bech32_decode = demo_bech32_decode,
     bech32_encode = (\<lambda>hrp bs. Some (hrp @ ''1'' @ demo_hex bs)),
     hex_decode = demo_unhex,
     hex_encode = demo_hex,
     base64_decode = demo_unhex,
     base64_encode = demo_hex,
     mnemonic_parse = (\<lambda>s. if s = [] then Inl ''bad word count'' else Inr ()),
     mnemonic_seed = (\<lambda>m p. str_bytes (m @ p)),
     xprv_new = (\<lambda>seed. Inr (pad 32 (bsum seed))),
     path_parse = (\<lambda>s. Inr [of_nat (length s)]),
     xprv_child = (\<lambda>x n. Inr (pad 32 (bsum x + ucast n))),
     xprv_key = (\<lambda>x. x) \<rparr>"

lemma length_pad [simp]: "length (pad n b) = n"
  by (cases n) (simp_all add: pad_def)

lemma demo_digest: "digest_laws demo"
  by (auto simp: digest_laws_def demo_def)

lemma demo_aead: "aead_laws demo"
  by (auto simp: aead_laws_def demo_def demo_seal_def demo_open_def split: if_splits)

lemma map2_xor_xor1:
  "length a = length b \<Longrightarrow> map2 (XOR) (xor1 b) a = map2 (XOR) (xor1 a) (b :: bytes)"
  by (induction a b rule: list_induct2) (auto simp: xor1_def ac_simps)

lemma demo_ecdh: "ecdh_laws demo"
  by (auto simp: ecdh_laws_def demo_def demo_key_def xor1_def split: if_splits
      intro!: map2_xor_xor1 [unfolded xor1_def])

lemma demo_schnorr: "schnorr_laws demo"
  by (auto simp: schnorr_laws_def demo_def demo_key_def demo_len_def demo_verify_def xor1_def
      split: if_splits)

lemma hex_value_digit: "d < 16 \<Longrightarrow> hex_value (hex_digit d) = Some d"
  by (simp add: hex_value_def hex_digit_def)

lemma hex_char_digit: "d < 16 \<Longrightarrow> hex_char (hex_digit d)"
  by (simp add: hex_char_def hex_digit_def)

lemma u8_less_256: "unat (b :: u8) < 256"
  using unsigned_less [of b] by simp

lemma demo_unhex_hex: "demo_unhex (demo_hex bs) = Inr bs"
proof (induction bs)
  case Nil
  show ?case by (simp add: demo_hex_def)
next
  case (Cons b bs)
  have "unat b div 16 < 16" using u8_less_256 [of b] by simp
  moreover have "(of_nat (16 * (unat b div 16) + unat b mod 16) :: u8) = b"
    by (simp only: mult_div_mod_eq of_nat_unat ucast_id)
  ultimately show ?case
    using Cons by (simp add: demo_hex_def hex_value_digit)
qed

lemma demo_hex_chars: "list_all hex_char (demo_hex bs)"
proof (induction bs)
  case (Cons b bs)
  have "unat b div 16 < 16" using u8_less_256 [of b] by simp
  with Cons show ?case by (simp add: demo_hex_def hex_char_digit)
qed (simp add: demo_hex_def)

lemma length_demo_hex: "length (demo_hex bs) = 2 * length bs"
  by (induction bs) (simp_all add: demo_hex_def)

lemma hex_char_range: "hex_char ch \<Longrightarrow> bech32_char ch"
  by (auto simp: hex_char_def bech32_char_def)

lemma hex_base64_char: "hex_char ch \<Longrightarrow> base64_char ch"
  by (auto simp: hex_char_def base64_char_def)

lemma demo_hex_ranges: "list_all bech32_char (demo_hex bs)" "list_all base64_char (demo_hex bs)"
  using demo_hex_chars [of bs] by (auto simp: list_all_iff intro: hex_char_range hex_base64_char)

lemma demo_bech32:
  assumes "hrp \<in> {''npub'', ''nsec''}"
  shows "demo_bech32_decode (hrp @ ''1'' @ demo_hex bs) = Inr (hrp, bs)"
  using assms by (auto simp: demo_bech32_decode_def demo_unhex_hex)

lemma demo_hex_eq_Nil [simp]: "demo_hex bs = [] \<longleftrightarrow> bs = []"
  by (cases bs) (simp_all add: demo_hex_def)

lemma demo_codec: "codec_laws demo"
proof -
  have "bs \<noteq> []" if "length bs = 32" for bs :: bytes
    using that by auto
  then show ?thesis
    by (simp add: codec_laws_def demo_def demo_unhex_hex demo_hex_chars length_demo_hex demo_bech32
        demo_hex_ranges del: append.simps)
qed

subsection \<open>A world\<close>

definition demo_world :: world where
  "demo_world = \<lparr>
     w_stdin = [], w_stdout = [], w_room = None, w_out_msg = ''Broken pipe (os error 32)'',
     w_flush_err = None, w_stderr = [], w_rng = (\<lambda>i. of_nat (i + 1)), w_rng_pos = 0,
     w_clock = Some 1788865892, w_environ = [], w_dumpable = True, w_fds = (\<lambda>_. [Fail bad_fd]),
     w_fd_flags = (\<lambda>_. -1), w_closed = [], w_fd_out = [],
     w_files = (\<lambda>_. Inl (Io_Error NotFound ''No such file or directory (os error 2)'')),
     w_is_file = (\<lambda>_. False), w_pid = 4242, w_o_tmpfile = True, w_tmpfile = None, w_unlink_ok = True,
     w_links = [], w_disk_room = None, w_disk_view = (\<lambda>d. [Data d]),
     w_seek = None \<rparr>"

lemma faithful_demo_world [simp]: "faithful demo_world"
  by (simp add: faithful_def demo_world_def)

end
