(* ===== verification/Keys.thy ===== *)
theory Keys
  imports Demo
begin

text \<open>
  Key intake (\<open>rust/src/main.rs\<close>): \<open>parse_key_bytes\<close>, \<open>encode_npub\<close>, \<open>KeyIntakeArgs\<close>,
  \<open>set_cloexec\<close>, the scrubbing of the environment, the BIP-85 derivation and
  \<open>load_secret_key\<close>. The lemmas at the end of each part say what an operation leaves behind:
  a key of 32 bytes, an environment without the sensitive variables, closed descriptors, and
  the rest of the world as it was (\<open>intake_step\<close>).
\<close>

subsection \<open>Key text\<close>

definition parse_key_bytes :: "crypto \<Rightarrow> string \<Rightarrow> string + bytes" where
  "parse_key_bytes c input =
     (let trimmed = trim input in
      if starts_with trimmed ''nsec1'' \<or> starts_with trimmed ''npub1'' then
        (case bech32_decode c trimmed of
           Inl e \<Rightarrow> Inl (''Bech32 error: '' @ e)
         | Inr (hrp, data) \<Rightarrow>
             if length data \<noteq> 32
             then Inl (''Expected 32 bytes in Bech32 data, got '' @ show_nat (length data))
             else Inr (blit (replicate 32 0) 0 data))
      else
        (case hex_decode c trimmed of
           Inl e \<Rightarrow> Inl (''Hex decode error: '' @ e)
         | Inr hex_bytes \<Rightarrow>
             if length hex_bytes \<noteq> 32
             then Inl (''Expected 32 bytes of hex, got '' @ show_nat (length hex_bytes))
             else Inr (blit (replicate 32 0) 0 hex_bytes)))"

text \<open>\<open>encode_npub\<close>: \<open>None\<close> is the panic of its \<open>unwrap\<close>.\<close>

definition encode_npub :: "crypto \<Rightarrow> bytes \<Rightarrow> string option" where
  "encode_npub c pk_x = bech32_encode c ''npub'' pk_x"

subsection \<open>Arguments and descriptors\<close>

record key_intake_args =
  sec_fd :: "int option"
  sec_file :: "string option"
  mnemonic_fd :: "int option"
  passphrase_fd :: "int option"
  bip85_identity :: "u32 option"
  bip85_index :: "u32 option"

text \<open>\<open>KeyIntakeArgs::default()\<close>\<close>

definition no_key_args :: key_intake_args where
  "no_key_args = \<lparr> sec_fd = None, sec_file = None, mnemonic_fd = None, passphrase_fd = None,
     bip85_identity = None, bip85_index = None \<rparr>"

definition set_cloexec :: "int \<Rightarrow> unit io" where
  "set_cloexec fd w =
     (let flags = (if fd \<in> set (w_closed w) then -1 else w_fd_flags w fd)
      in if 0 \<le> flags
         then (Ok (), w\<lparr>w_fd_flags := (w_fd_flags w)(fd := flags OR 1)\<rparr>)
         else (Ok (), w))"

text \<open>The block \<open>load_secret_key\<close> repeats for each descriptor flag; dropping the file closes it.\<close>

definition read_secret_fd :: "string \<Rightarrow> int \<Rightarrow> string io" where
  "read_secret_fd flag fd =
     io_bind (set_cloexec fd) (\<lambda>_.
     io_bind (fd_open fd) (\<lambda>f.
     io_bind (fd_close fd) (\<lambda>_.
     io_try (\<lambda>e. UsageError (''Failed to read '' @ flag @ '': '' @ io_msg e)) (read_to_string f))))"

subsection \<open>Environment scrubbing\<close>

text \<open>
  \<open>scrub_env_var\<close>: the memory of the first entry of that name (of valid UTF-8) is overwritten
  with zeros, then \<open>remove_var\<close> unlinks every entry of that name.
\<close>

fun wipe_first :: "string \<Rightarrow> env_cell list \<Rightarrow> env_cell list" where
  "wipe_first prefix [] = []"
| "wipe_first prefix (ep # rest) =
     (if cell_linked ep \<and> utf8_valid (str_bytes (cell_text ep)) \<and> starts_with (cell_text ep) prefix
      then ep\<lparr>cell_text := replicate (length (cell_text ep)) (CHR 0x00)\<rparr> # rest
      else ep # wipe_first prefix rest)"

definition remove_var :: "string \<Rightarrow> env_cell list \<Rightarrow> env_cell list" where
  "remove_var key cells =
     map (\<lambda>ep. if starts_with (cell_text ep) (key @ ''='') then ep\<lparr>cell_linked := False\<rparr> else ep) cells"

definition scrub_cells :: "string \<Rightarrow> env_cell list \<Rightarrow> env_cell list" where
  "scrub_cells key cells = remove_var key (wipe_first (key @ ''='') cells)"

definition scrub_env_var :: "string \<Rightarrow> unit io" where
  "scrub_env_var key w = (Ok (), w\<lparr>w_environ := scrub_cells key (w_environ w)\<rparr>)"

definition sensitive_vars :: "string list" where
  "sensitive_vars = [''PIPE_K1_SEC_KEY'', ''PIPEK1_SEC_KEY'', ''PIPE_K1_MNEMONIC'', ''PIPEK1_MNEMONIC'',
     ''PIPE_K1_PASSPHRASE'', ''PIPEK1_PASSPHRASE'']"

fun scrub_vars :: "string list \<Rightarrow> unit io" where
  "scrub_vars [] = io_return ()"
| "scrub_vars (key # keys) = io_bind (scrub_env_var key) (\<lambda>_. scrub_vars keys)"

definition scrub_all_sensitive_env :: "unit io" where
  "scrub_all_sensitive_env = scrub_vars sensitive_vars"

subsection \<open>BIP-85\<close>

fun derive_path :: "crypto \<Rightarrow> bytes \<Rightarrow> u32 list \<Rightarrow> string + bytes" where
  "derive_path c current_xprv [] = Inr current_xprv"
| "derive_path c current_xprv (child_num # path) =
     (case xprv_child c current_xprv child_num of
        Inl e \<Rightarrow> Inl (''BIP-85 child derivation failed: '' @ e)
      | Inr x \<Rightarrow> derive_path c x path)"

definition bip85_path :: "u32 \<Rightarrow> u32 \<Rightarrow> string" where
  "bip85_path identity index =
     ''m/83696968'' @ [CHR 0x27] @ ''/128002'' @ [CHR 0x27] @ ''/'' @ show_nat (unat identity) @
     [CHR 0x27] @ ''/'' @ show_nat (unat index) @ [CHR 0x27]"

definition derive_bip85_operational_key ::
  "crypto \<Rightarrow> string \<Rightarrow> string \<Rightarrow> u32 \<Rightarrow> u32 \<Rightarrow> pipek1_error + bytes" where
  "derive_bip85_operational_key c mnemonic_str passphrase_str identity index =
     (let m = trim mnemonic_str in
      case mnemonic_parse c m of
        Inl e \<Rightarrow> Inl (UsageError (''Invalid BIP-39 mnemonic: '' @ e))
      | Inr _ \<Rightarrow>
          let seed = mnemonic_seed c m (trim passphrase_str) in
          (case xprv_new c seed of
             Inl e \<Rightarrow> Inl (UsageError (''BIP-32 root key derivation failed: '' @ e))
           | Inr root_xprv \<Rightarrow>
               let path_str = bip85_path identity index in
               (case path_parse c path_str of
                  Inl e \<Rightarrow> Inl (UsageError (''Invalid BIP-85 derivation path '' @ [CHR 0x27] @ path_str @
                    [CHR 0x27] @ '': '' @ e))
                | Inr path \<Rightarrow>
                    (case derive_path c root_xprv path of
                       Inl e \<Rightarrow> Inl (UsageError e)
                     | Inr xprv \<Rightarrow>
                         let hmac_res = hmac_sha512 c (str_bytes ''bip-entropy-from-k'') (xprv_key c xprv);
                             operational_sk = slice hmac_res 0 32
                         in if operational_sk = replicate 32 0
                            then Inl (UsageError ''Derived BIP-85 scalar is zero'')
                            else (case signing_key c operational_sk of
                               Inl e \<Rightarrow> Inl (UsageError (''Derived BIP-85 scalar invalid on secp256k1: '' @ e))
                             | Inr _ \<Rightarrow> Inr operational_sk)))))"

subsection \<open>\<open>load_secret_key\<close>\<close>

definition env_var_or :: "string \<Rightarrow> string \<Rightarrow> string option io" where
  "env_var_or key fallback =
     io_bind (env_var key) (\<lambda>v. case v of Some x \<Rightarrow> io_return (Some x) | None \<Rightarrow> env_var fallback)"

text \<open>\<open>PathBuf::join\<close> of a relative path.\<close>

definition path_join :: "string \<Rightarrow> string \<Rightarrow> string" where
  "path_join base rel = (if base = [] \<or> last base = CHR ''/'' then base @ rel else base @ ''/'' @ rel)"

definition set_undumpable :: "unit io" where
  "set_undumpable w = (Ok (), w\<lparr>w_dumpable := False\<rparr>)"

definition parse_key :: "crypto \<Rightarrow> string \<Rightarrow> bytes io" where
  "parse_key c s = io_try UsageError (parse_key_bytes c s)"

definition no_key_error :: pipek1_error where
  "no_key_error = UsageError (''No secret key provided: set PIPE_K1_SEC_KEY (or PIPEK1_SEC_KEY), pass '' @
     ''--sec-fd / --sec-file, or supply --mnemonic-fd / PIPE_K1_MNEMONIC for BIP-85'')"

definition git_key_path :: "string \<Rightarrow> world \<Rightarrow> string option" where
  "git_key_path home w =
     (let p1 = path_join home ''.config/pipe-k1/git_key'';
          p2 = path_join home ''.config/pipek1/git_key''
      in if w_is_file w p1 then Some p1 else if w_is_file w p2 then Some p2 else None)"

definition git_fallback_key :: "crypto \<Rightarrow> bytes io" where
  "git_fallback_key c =
     io_bind (env_var ''HOME'') (\<lambda>home.
     case home of
       None \<Rightarrow> io_err no_key_error
     | Some home \<Rightarrow>
         io_bind (io_get (git_key_path home)) (\<lambda>p.
         case p of
           None \<Rightarrow> io_err no_key_error
         | Some path \<Rightarrow>
             io_bind (fs_read_to_string path) (\<lambda>r.
             case r of
               Inl _ \<Rightarrow> io_err no_key_error
             | Inr s \<Rightarrow>
                 (case parse_key_bytes c s of
                    Inl _ \<Rightarrow> io_err no_key_error
                  | Inr k \<Rightarrow> io_return k))))"

definition load_mnemonic_key :: "crypto \<Rightarrow> key_intake_args \<Rightarrow> string option \<Rightarrow> string \<Rightarrow> bytes io" where
  "load_mnemonic_key c args env_passphrase m_str =
     io_bind (case passphrase_fd args of
                Some p_fd \<Rightarrow> read_secret_fd ''--passphrase-fd'' p_fd
              | None \<Rightarrow> io_return (case env_passphrase of Some p \<Rightarrow> p | None \<Rightarrow> []))
       (\<lambda>passphrase_str.
          let identity = (case bip85_identity args of Some i \<Rightarrow> i | None \<Rightarrow> 0);
              index = (case bip85_index args of Some i \<Rightarrow> i | None \<Rightarrow> 0)
          in io_try id (derive_bip85_operational_key c m_str passphrase_str identity index))"

definition mnemonic_input :: "key_intake_args \<Rightarrow> string option \<Rightarrow> string option io" where
  "mnemonic_input args env_mnemonic =
     (case mnemonic_fd args of
        Some m_fd \<Rightarrow> io_bind (read_secret_fd ''--mnemonic-fd'' m_fd) (\<lambda>s. io_return (Some s))
      | None \<Rightarrow> io_return env_mnemonic)"

text \<open>What follows the scrub: the sources of a key in their order of priority.\<close>

definition load_from ::
  "crypto \<Rightarrow> key_intake_args \<Rightarrow> string option \<Rightarrow> string option \<Rightarrow> string option \<Rightarrow> bytes io" where
  "load_from c args env_mnemonic env_passphrase env_sec_key =
     (case sec_fd args of
       Some fd_num \<Rightarrow> io_bind (read_secret_fd ''--sec-fd'' fd_num) (parse_key c)
     | None \<Rightarrow>
         (case sec_file args of
            Some path \<Rightarrow>
              io_bind (fs_read_to_string path) (\<lambda>r.
              io_bind (io_try (\<lambda>e. UsageError (''Failed to read --sec-file: '' @ io_msg e)) r) (parse_key c))
          | None \<Rightarrow>
              io_bind (mnemonic_input args env_mnemonic) (\<lambda>m.
              case m of
                Some m_str \<Rightarrow> load_mnemonic_key c args env_passphrase m_str
              | None \<Rightarrow>
                  (case env_sec_key of
                     Some val \<Rightarrow> parse_key c val
                   | None \<Rightarrow> git_fallback_key c))))"

definition load_secret_key :: "crypto \<Rightarrow> key_intake_args \<Rightarrow> bytes io" where
  "load_secret_key c args =
     io_bind set_undumpable (\<lambda>_.
     io_bind (env_var_or ''PIPE_K1_MNEMONIC'' ''PIPEK1_MNEMONIC'') (\<lambda>env_mnemonic.
     io_bind (env_var_or ''PIPE_K1_PASSPHRASE'' ''PIPEK1_PASSPHRASE'') (\<lambda>env_passphrase.
     io_bind (env_var_or ''PIPE_K1_SEC_KEY'' ''PIPEK1_SEC_KEY'') (\<lambda>env_sec_key.
     io_bind scrub_all_sensitive_env (\<lambda>_.
     load_from c args env_mnemonic env_passphrase env_sec_key)))))"

subsection \<open>Lengths and validity of a loaded key\<close>

lemma blit_all [simp]: "length data = n \<Longrightarrow> blit (replicate n 0) 0 data = data"
  by (simp add: blit_def)

lemma parse_key_bytes_length: "parse_key_bytes c s = Inr k \<Longrightarrow> length k = 32"
  by (auto simp: parse_key_bytes_def Let_def split: if_splits sum.splits prod.splits)

lemma derive_bip85_valid:
  assumes "derive_bip85_operational_key c m p i j = Inr k"
  shows "signing_key c k = Inr () \<and> k \<noteq> replicate 32 0"
  using assms
  by (auto simp: derive_bip85_operational_key_def Let_def split: if_splits sum.splits)

lemma derive_bip85_length:
  assumes "digest_laws c" and "derive_bip85_operational_key c m p i j = Inr k"
  shows "length k = 32"
  using assms
  by (auto simp: derive_bip85_operational_key_def Let_def digest_laws_def split: if_splits sum.splits)

text \<open>Every error of the intake is a usage error.\<close>

lemma derive_bip85_error:
  assumes "derive_bip85_operational_key c m p i j = Inl e"
  shows "exit_code e = 2"
  using assms
  by (auto simp: derive_bip85_operational_key_def Let_def split: if_splits sum.splits)

definition usage_only :: "(pipek1_error, 'a) res \<Rightarrow> bool" where
  "usage_only r \<longleftrightarrow> (\<forall>e. r = Err e \<longrightarrow> exit_code e = 2)"

definition only_usage :: "'a io \<Rightarrow> bool" where
  "only_usage m \<longleftrightarrow> (\<forall>w. usage_only (fst (m w)))"

named_theorems usage_rules

lemma only_usage_bind [usage_rules]:
  "only_usage m \<Longrightarrow> (\<And>x. only_usage (f x)) \<Longrightarrow> only_usage (io_bind m f)"
  by (auto simp: only_usage_def usage_only_def io_bind_def split: prod.splits res.splits)
    (metis fst_conv)+

lemma only_usage_basic [usage_rules]:
  "only_usage (io_return x)"
  "only_usage (io_get g)"
  "only_usage (set_cloexec fd)"
  "only_usage (fd_open fd)"
  "only_usage (fd_close fd)"
  "only_usage (fs_read_to_string path)"
  "only_usage (env_var key)"
  "only_usage set_undumpable"
  "only_usage (scrub_env_var key)"
  by (auto simp: only_usage_def usage_only_def set_cloexec_def fd_open_def fd_close_def
      fs_read_to_string_def env_var_def set_undumpable_def scrub_env_var_def Let_def)

lemma only_usage_err [usage_rules]: "exit_code e = 2 \<Longrightarrow> only_usage (io_err e)"
  by (simp add: only_usage_def usage_only_def)

lemma only_usage_try [usage_rules]:
  "(\<And>e. r = Inl e \<Longrightarrow> exit_code (f e) = 2) \<Longrightarrow> only_usage (io_try f r)"
  by (cases r) (simp_all add: only_usage_def usage_only_def)

lemma only_usage_case_option [usage_rules]:
  "only_usage m \<Longrightarrow> (\<And>x. only_usage (n x)) \<Longrightarrow> only_usage (case r of None \<Rightarrow> m | Some x \<Rightarrow> n x)"
  by (cases r) auto

lemma only_usage_case_sum [usage_rules]:
  "(\<And>e. only_usage (m e)) \<Longrightarrow> (\<And>x. only_usage (n x)) \<Longrightarrow>
     only_usage (case r of Inl e \<Rightarrow> m e | Inr x \<Rightarrow> n x)"
  by (cases r) auto

lemma only_usage_scrub_vars [usage_rules]: "only_usage (scrub_vars keys)"
proof (induction keys)
  case (Cons key keys)
  then show ?case by (simp only: scrub_vars.simps) (intro usage_rules)
qed (simp only: scrub_vars.simps usage_rules)

lemma load_secret_key_usage: "only_usage (load_secret_key c args)"
  unfolding load_secret_key_def load_from_def env_var_or_def scrub_all_sensitive_env_def
    mnemonic_input_def load_mnemonic_key_def git_fallback_key_def parse_key_def
    read_secret_fd_def no_key_error_def Let_def id_def
  by (auto intro!: usage_rules intro: derive_bip85_error)

subsection \<open>What the intake changes\<close>

text \<open>
  The intake touches the environment, the dumpable flag and the descriptors; the rest of the
  world, and the temporary directory's variable, it keeps.
\<close>

definition off_intake :: "world \<Rightarrow> world" where
  "off_intake w = w\<lparr>w_dumpable := True, w_environ := [], w_fd_flags := (\<lambda>_. 0), w_closed := []\<rparr>"

definition intake_view :: "world \<Rightarrow> world \<times> string option" where
  "intake_view w = (off_intake w, env_lookup ''TMPDIR'' (w_environ w))"

lemma keeps_via: "keeps g m \<Longrightarrow> (\<And>v w. g v = g w \<Longrightarrow> f v = f w) \<Longrightarrow> keeps f m"
  unfolding keeps_def by blast

lemma keeps_env_var [quiet_rules]: "keeps f (env_var key)"
  by (simp add: keeps_def env_var_def)

lemma keeps_fs_read [quiet_rules]: "keeps f (fs_read_to_string path)"
  by (simp add: keeps_def fs_read_to_string_def)

lemma keeps_fd_open [quiet_rules]: "keeps f (fd_open fd)"
  by (simp add: keeps_def fd_open_def)

definition shown :: "string \<Rightarrow> env_cell \<Rightarrow> bool" where
  "shown key ep \<longleftrightarrow> cell_linked ep \<and> starts_with (cell_text ep) (key @ ''='')"

lemma strip_prefix_self [simp]: "strip_prefix (p @ r) p = Some r"
  by (simp add: strip_prefix_Some)

lemma env_lookup_None: "env_lookup key cells = None \<longleftrightarrow> (\<forall>ep \<in> set cells. \<not> shown key ep)"
proof (induction cells)
  case (Cons cl cs)
  show ?case
  proof (cases "shown key cl")
    case True
    then obtain r where "cell_text cl = (key @ ''='') @ r"
      unfolding shown_def starts_with_iff by blast
    with True have "env_lookup key (cl # cs) = Some r"
      by (simp only: env_lookup.simps shown_def if_True simp_thms strip_prefix_self)
    with True show ?thesis by simp
  next
    case False
    then have "env_lookup key (cl # cs) = env_lookup key cs"
      by (simp only: env_lookup.simps shown_def if_False)
    with False Cons show ?thesis by simp
  qed
qed simp

lemma starts_with_zeros: "starts_with (replicate n (CHR 0x00)) (p # ps) \<Longrightarrow> p = CHR 0x00"
  by (cases n) auto

lemma wiped_not_shown:
  "k \<noteq> [] \<Longrightarrow> hd k \<noteq> CHR 0x00 \<Longrightarrow> \<not> shown k (ep\<lparr>cell_text := replicate n (CHR 0x00)\<rparr>)"
  by (cases k) (auto simp: shown_def dest: starts_with_zeros)

lemma shown_remove: "ep \<in> set (remove_var key cells) \<Longrightarrow> shown k ep \<Longrightarrow>
    ep \<in> set cells \<and> \<not> shown key ep"
  by (auto simp: remove_var_def shown_def split: if_splits)

lemma shown_wipe:
  assumes "k \<noteq> []" and "hd k \<noteq> CHR 0x00"
  shows "ep \<in> set (wipe_first prefix cells) \<Longrightarrow> shown k ep \<Longrightarrow> ep \<in> set cells"
  using wiped_not_shown [OF assms] by (induction cells) (auto split: if_splits)

lemma shown_scrub:
  assumes "k \<noteq> []" and "hd k \<noteq> CHR 0x00"
  shows "ep \<in> set (scrub_cells key cells) \<Longrightarrow> shown k ep \<Longrightarrow> ep \<in> set cells \<and> \<not> shown key ep"
  unfolding scrub_cells_def using shown_remove shown_wipe [OF assms] by blast

lemma env_lookup_scrub_None:
  assumes "k \<noteq> []" and "hd k \<noteq> CHR 0x00" and "k = key \<or> env_lookup k cells = None"
  shows "env_lookup k (scrub_cells key cells) = None"
  using shown_scrub [OF assms(1,2)] assms(3) unfolding env_lookup_None by blast

text \<open>Scrubbing a variable does not change what another one is.\<close>

definition apart :: "string \<Rightarrow> string \<Rightarrow> bool" where
  "apart k key \<longleftrightarrow> k \<noteq> [] \<and> hd k \<noteq> CHR 0x00 \<and>
     (\<forall>s. \<not> (starts_with s (key @ ''='') \<and> starts_with s (k @ ''='')))"

lemma env_lookup_remove_other:
  "apart k key \<Longrightarrow> env_lookup k (remove_var key cells) = env_lookup k cells"
  by (induction cells) (auto simp: remove_var_def apart_def)

lemma env_lookup_wipe_other:
  "apart k key \<Longrightarrow> env_lookup k (wipe_first (key @ ''='') cells) = env_lookup k cells"
  by (induction cells) (auto simp: apart_def neq_Nil_conv dest: starts_with_zeros)

lemma env_lookup_scrub_other:
  "apart k key \<Longrightarrow> env_lookup k (scrub_cells key cells) = env_lookup k cells"
  by (simp add: scrub_cells_def env_lookup_remove_other env_lookup_wipe_other)

lemma starts_with_hd: "starts_with s (a # as) \<Longrightarrow> s \<noteq> [] \<and> hd s = a"
  by (cases s) auto

lemma apart_hd: "k \<noteq> [] \<Longrightarrow> key \<noteq> [] \<Longrightarrow> hd k \<noteq> hd key \<Longrightarrow> hd k \<noteq> CHR 0x00 \<Longrightarrow> apart k key"
  by (cases k; cases key) (auto simp: apart_def dest: starts_with_hd)

lemma sensitive_apart: "key \<in> set sensitive_vars \<Longrightarrow> apart ''TMPDIR'' key \<and> apart ''HOME'' key"
  by (auto simp: sensitive_vars_def intro!: apart_hd)

fun scrub_list :: "string list \<Rightarrow> env_cell list \<Rightarrow> env_cell list" where
  "scrub_list [] cells = cells"
| "scrub_list (key # keys) cells = scrub_list keys (scrub_cells key cells)"

lemma scrub_vars_run: "scrub_vars keys w = (Ok (), w\<lparr>w_environ := scrub_list keys (w_environ w)\<rparr>)"
  by (induction keys arbitrary: w) (simp_all add: scrub_env_var_def io_bind_def)

lemma scrub_list_other:
  "\<forall>key \<in> set keys. apart k key \<Longrightarrow> env_lookup k (scrub_list keys cells) = env_lookup k cells"
  by (induction keys arbitrary: cells) (simp_all add: env_lookup_scrub_other)

lemma scrub_list_None:
  assumes "k \<noteq> []" and "hd k \<noteq> CHR 0x00"
  shows "k \<in> set keys \<or> env_lookup k cells = None \<Longrightarrow> env_lookup k (scrub_list keys cells) = None"
proof (induction keys arbitrary: cells)
  case (Cons key keys)
  then show ?case using env_lookup_scrub_None [OF assms] by auto
qed simp

lemma sensitive_named: "k \<in> set sensitive_vars \<Longrightarrow> k \<noteq> [] \<and> hd k \<noteq> CHR 0x00"
  by (auto simp: sensitive_vars_def)

subsection \<open>The intake as a step\<close>

lemma keeps_set_dumpable: "keeps intake_view set_undumpable"
  by (simp add: keeps_def set_undumpable_def intake_view_def off_intake_def)

lemma keeps_cloexec:
  "keeps intake_view (set_cloexec fd)" "keeps w_environ (set_cloexec fd)"
  by (simp_all add: keeps_def set_cloexec_def intake_view_def off_intake_def Let_def)

lemma keeps_close: "keeps intake_view (fd_close fd)" "keeps w_environ (fd_close fd)"
  by (simp_all add: keeps_def fd_close_def intake_view_def off_intake_def)

lemma keeps_scrub: "keeps intake_view scrub_all_sensitive_env"
proof -
  have "\<forall>key \<in> set sensitive_vars. apart ''TMPDIR'' key" using sensitive_apart by blast
  from scrub_list_other [OF this] show ?thesis
    by (simp add: keeps_def scrub_all_sensitive_env_def scrub_vars_run intake_view_def off_intake_def)
qed

lemma keeps_secret_fd:
  "keeps intake_view (read_secret_fd flag fd)" "keeps w_environ (read_secret_fd flag fd)"
  unfolding read_secret_fd_def by (intro quiet_rules keeps_cloexec keeps_close)+

lemma keeps_load_from:
  "keeps intake_view (load_from c args m p k)" "keeps w_environ (load_from c args m p k)"
  unfolding load_from_def mnemonic_input_def load_mnemonic_key_def git_fallback_key_def parse_key_def Let_def
  by (intro quiet_rules keeps_secret_fd)+

lemma keeps_load_secret_key: "keeps intake_view (load_secret_key c args)"
  unfolding load_secret_key_def env_var_or_def
  by (intro quiet_rules keeps_set_dumpable keeps_scrub keeps_load_from)

lemma intake_view_keeps:
  assumes "intake_view w' = intake_view w" and "\<And>x. f (off_intake x) = f x"
  shows "f w' = f w"
  using assms unfolding intake_view_def by (metis prod.inject)

lemma intake_view_fields:
  assumes "intake_view w' = intake_view w"
  shows "w_stdout w' = w_stdout w" "w_stdin w' = w_stdin w" "w_stderr w' = w_stderr w"
    "w_files w' = w_files w" "w_rng_pos w' = w_rng_pos w" "w_rng w' = w_rng w" "w_links w' = w_links w"
    "w_room w' = w_room w" "w_flush_err w' = w_flush_err w" "w_tmpfile w' = w_tmpfile w"
    "w_disk_room w' = w_disk_room w" "w_seek w' = w_seek w" "w_disk_view w' = w_disk_view w"
    "w_clock w' = w_clock w"
  by (rule intake_view_keeps [OF assms], simp add: off_intake_def)+

lemma intake_view_faithful:
  assumes "intake_view w' = intake_view w"
  shows "faithful w' = faithful w"
proof -
  have "env_lookup ''TMPDIR'' (w_environ w') = env_lookup ''TMPDIR'' (w_environ w)"
    using assms by (simp only: intake_view_def prod.inject)
  then show ?thesis
    unfolding faithful_def intake_view_fields [OF assms] by simp
qed

text \<open>Loading a key leaves the streams and the disk alone, whatever its outcome.\<close>

lemma keeps_load_stdout [quiet_rules]: "keeps w_stdout (load_secret_key c args)"
  by (rule keeps_via [OF keeps_load_secret_key]) (rule intake_view_fields(1))

subsection \<open>Running the intake\<close>

definition env_value :: "string \<Rightarrow> world \<Rightarrow> string option" where
  "env_value key w =
     (case env_lookup key (w_environ w) of
        None \<Rightarrow> None | Some v \<Rightarrow> if utf8_valid (str_bytes v) then Some v else None)"

definition env_either :: "string \<Rightarrow> string \<Rightarrow> world \<Rightarrow> string option" where
  "env_either key fallback w =
     (case env_value key w of Some v \<Rightarrow> Some v | None \<Rightarrow> env_value fallback w)"

lemma env_var_or_run: "env_var_or key fallback w = (Ok (env_either key fallback w), w)"
proof (cases "env_value key w")
  case None
  have "env_var key w = (Ok None, w)" "env_var fallback w = (Ok (env_value fallback w), w)"
    using None by (simp_all add: env_var_def env_value_def)
  with None show ?thesis by (simp add: env_var_or_def io_bind_def env_either_def)
next
  case (Some v)
  then have "env_var key w = (Ok (Some v), w)" by (simp add: env_var_def env_value_def)
  with Some show ?thesis by (simp add: env_var_or_def io_bind_def env_either_def)
qed

text \<open>The state the key sources are read in: no core dumps, no sensitive variable.\<close>

definition scrubbed :: "world \<Rightarrow> world" where
  "scrubbed w = w\<lparr>w_dumpable := False, w_environ := scrub_list sensitive_vars (w_environ w)\<rparr>"

lemma load_secret_key_run:
  "load_secret_key c args w =
     load_from c args (env_either ''PIPE_K1_MNEMONIC'' ''PIPEK1_MNEMONIC'' w)
       (env_either ''PIPE_K1_PASSPHRASE'' ''PIPEK1_PASSPHRASE'' w)
       (env_either ''PIPE_K1_SEC_KEY'' ''PIPEK1_SEC_KEY'' w) (scrubbed w)"
proof -
  have "env_value k (w\<lparr>w_dumpable := False\<rparr>) = env_value k w" for k
    by (simp add: env_value_def)
  then have undump: "env_either k f (w\<lparr>w_dumpable := False\<rparr>) = env_either k f w" for k f
    by (simp add: env_either_def split: option.split)
  show ?thesis
    by (simp only: load_secret_key_def io_bind_def set_undumpable_def env_var_or_run undump
        scrub_all_sensitive_env_def scrub_vars_run prod.case res.case scrubbed_def) simp
qed

lemma load_secret_key_environ:
  "load_secret_key c args w = (r, w') \<Longrightarrow> w_environ w' = scrub_list sensitive_vars (w_environ w)"
  using keepsD [OF keeps_load_from(2)] by (fastforce simp: load_secret_key_run scrubbed_def)

lemma read_secret_fd_closes:
  "fd \<noteq> -1 \<Longrightarrow> read_secret_fd flag fd w = (r, w') \<Longrightarrow> fd \<in> set (w_closed w')"
  by (auto simp: read_secret_fd_def io_bind_def set_cloexec_def fd_open_def fd_close_def Let_def
      io_try_def split: if_splits sum.splits)

definition dumps :: "world \<Rightarrow> bool" where
  "dumps = w_dumpable"

lemma keeps_dumps:
  "keeps dumps (set_cloexec fd)" "keeps dumps (fd_close fd)"
  by (simp_all add: keeps_def set_cloexec_def fd_close_def dumps_def Let_def)

lemma load_secret_key_undumpable:
  assumes "load_secret_key c args w = (r, w')"
  shows "\<not> w_dumpable w'"
proof -
  have "keeps dumps (load_from c args m p k)" for m p k
    unfolding load_from_def mnemonic_input_def load_mnemonic_key_def git_fallback_key_def parse_key_def
      Let_def read_secret_fd_def
    by (intro quiet_rules keeps_dumps)
  from keepsD [OF this assms [unfolded load_secret_key_run]] show ?thesis
    by (simp add: dumps_def scrubbed_def)
qed

text \<open>The text of a key: hexadecimal, \<open>npub\<close> and \<open>nsec\<close> of 32 bytes parse to them.\<close>

lemma trim_bech32: "list_all bech32_char s \<Longrightarrow> trim s = s"
  by (rule trim_visible) (auto simp: list_all_iff bech32_char_def visible_def)

lemma hex_bech32_char: "hex_char ch \<Longrightarrow> bech32_char ch"
  by (auto simp: hex_char_def bech32_char_def)

lemma parse_key_hex:
  assumes "codec_laws c" and "length k = 32"
  shows "parse_key_bytes c (hex_encode c k) = Inr k"
proof -
  have h: "list_all hex_char (hex_encode c k)" "hex_decode c (hex_encode c k) = Inr k"
    using assms(1) by (simp_all add: codec_laws_def)
  then have t: "trim (hex_encode c k) = hex_encode c k"
    by (intro trim_bech32) (simp add: list_all_iff hex_bech32_char)
  have n: "\<not> starts_with (hex_encode c k) (CHR ''n'' # p)" for p
    using h(1) by (cases "hex_encode c k") (auto simp: hex_char_def)
  show ?thesis
    using h(2) t n assms(2) by (simp add: parse_key_bytes_def)
qed

lemma parse_key_bech32:
  assumes "codec_laws c" and "length k = 32" and "hrp \<in> {''npub'', ''nsec''}"
    and "bech32_encode c hrp k = Some s"
  shows "parse_key_bytes c s = Inr k"
proof -
  obtain d where "bech32_encode c hrp k = Some (hrp @ ''1'' @ d)" "list_all bech32_char d"
    "bech32_decode c (hrp @ ''1'' @ d) = Inr (hrp, k)"
    using assms(1) [unfolded codec_laws_def, THEN conjunct2, rule_format, OF assms(3,2)] by blast
  with assms(4) have d: "s = hrp @ ''1'' @ d" "list_all bech32_char d" "bech32_decode c s = Inr (hrp, k)"
    by simp_all
  have "list_all bech32_char (hrp @ ''1'')"
    using assms(3) by (auto simp: bech32_char_def)
  with d have t: "trim s = s" by (intro trim_bech32) simp
  have p: "starts_with s ''nsec1'' \<or> starts_with s ''npub1''"
    using assms(3) d(1) by auto
  show ?thesis
    using d(3) t p assms(2) by (simp add: parse_key_bytes_def)
qed

lemma npub_total: "codec_laws c \<Longrightarrow> length k = 32 \<Longrightarrow> \<exists>s. encode_npub c k = Some s"
  using conjunct2 [OF codec_laws_def [THEN iffD1], rule_format, of c "''npub''" k]
  by (auto simp: encode_npub_def)

subsection \<open>The memory of the environment\<close>

text \<open>
  A variable with one entry of valid UTF-8 leaves no trace: not only is the entry unlinked, no
  memory of the environment block spells \<open>KEY=\<close> any more.
\<close>

definition spells :: "string \<Rightarrow> env_cell \<Rightarrow> bool" where
  "spells key ep \<longleftrightarrow> starts_with (cell_text ep) (key @ ''='')"

definition single :: "string \<Rightarrow> env_cell list \<Rightarrow> bool" where
  "single key cells \<longleftrightarrow>
     length (filter (spells key) cells) \<le> 1 \<and>
     list_all (\<lambda>ep. cell_linked ep \<and> utf8_valid (str_bytes (cell_text ep))) (filter (spells key) cells)"

lemma zeros_spell_nothing:
  "k \<noteq> [] \<Longrightarrow> hd k \<noteq> CHR 0x00 \<Longrightarrow> \<not> spells k (ep\<lparr>cell_text := replicate n (CHR 0x00)\<rparr>)"
  by (cases k) (auto simp: spells_def dest: starts_with_zeros)

lemma spells_remove: "filter (spells k) (remove_var key cells) =
    map (\<lambda>ep. if starts_with (cell_text ep) (key @ ''='') then ep\<lparr>cell_linked := False\<rparr> else ep)
      (filter (spells k) cells)"
  by (induction cells) (auto simp: remove_var_def spells_def)

lemma wipe_single:
  assumes "k \<noteq> []" and "hd k \<noteq> CHR 0x00"
  shows "single k cells \<Longrightarrow> filter (spells k) (wipe_first (k @ ''='') cells) = []"
proof (induction cells)
  case (Cons ep cells)
  show ?case
  proof (cases "spells k ep")
    case True
    with Cons.prems have "filter (spells k) cells = []" "cell_linked ep" "utf8_valid (str_bytes (cell_text ep))"
      by (auto simp: single_def)
    with True zeros_spell_nothing [OF assms] show ?thesis by (simp add: spells_def [of k ep])
  next
    case False
    with Cons show ?thesis by (simp add: single_def spells_def [of k ep])
  qed
qed simp

lemma wipe_filter:
  assumes "k \<noteq> []" and "hd k \<noteq> CHR 0x00"
  shows "length (filter (spells k) (wipe_first p cells)) \<le> length (filter (spells k) cells)"
  using zeros_spell_nothing [OF assms] by (induction cells) auto

lemma wipe_apart: "apart k key \<Longrightarrow> filter (spells k) (wipe_first (key @ ''='') cells) = filter (spells k) cells"
proof (induction cells)
  case (Cons ep cells)
  then have k: "k \<noteq> []" "hd k \<noteq> CHR 0x00" "\<not> (spells k ep \<and> spells key ep)"
    by (auto simp: apart_def spells_def)
  with Cons zeros_spell_nothing [OF k(1,2)] show ?case by (simp add: spells_def [of key])
qed simp

lemma single_scrub:
  assumes "apart k key"
  shows "single k cells \<Longrightarrow> single k (scrub_cells key cells)"
proof -
  assume s: "single k cells"
  have "spells k ep \<Longrightarrow> \<not> starts_with (cell_text ep) (key @ ''='')" for ep
    using assms by (auto simp: apart_def spells_def)
  then have "filter (spells k) (scrub_cells key cells) = filter (spells k) cells"
    unfolding scrub_cells_def spells_remove wipe_apart [OF assms]
    by (induction cells) auto
  with s show ?thesis by (simp add: single_def)
qed

lemma scrub_none:
  assumes "k \<noteq> []" and "hd k \<noteq> CHR 0x00" and "filter (spells k) cells = []"
  shows "filter (spells k) (scrub_cells key cells) = []"
  using wipe_filter [OF assms(1,2), of "key @ ''=''" cells] assms(3)
  by (simp add: scrub_cells_def spells_remove)

lemma starts_with_both: "starts_with s p \<Longrightarrow> starts_with s q \<Longrightarrow> starts_with p q \<or> starts_with q p"
  by (auto simp: starts_with_iff append_eq_append_conv2)

lemma apartI:
  assumes "k \<noteq> []" and "hd k \<noteq> CHR 0x00"
    and "\<not> starts_with (k @ ''='') (key @ ''='')" and "\<not> starts_with (key @ ''='') (k @ ''='')"
  shows "apart k key"
  using assms starts_with_both unfolding apart_def by blast

lemma sensitive_prefixes:
  "\<forall>k \<in> set sensitive_vars. \<forall>key \<in> set sensitive_vars.
     starts_with (k @ ''='') (key @ ''='') \<longrightarrow> k = key"
  by code_simp

lemma sensitive_pairs_apart:
  "k \<in> set sensitive_vars \<Longrightarrow> key \<in> set sensitive_vars \<Longrightarrow> k \<noteq> key \<Longrightarrow> apart k key"
  using sensitive_prefixes sensitive_named by (intro apartI) metis+

lemma scrub_list_none:
  assumes "k \<noteq> []" and "hd k \<noteq> CHR 0x00"
  shows "filter (spells k) cells = [] \<Longrightarrow> filter (spells k) (scrub_list keys cells) = []"
  by (induction keys arbitrary: cells) (simp_all add: scrub_none [OF assms])

lemma scrub_list_wipes:
  assumes "k \<in> set sensitive_vars"
  shows "set keys \<subseteq> set sensitive_vars \<Longrightarrow> k \<in> set keys \<Longrightarrow> single k cells \<Longrightarrow>
    filter (spells k) (scrub_list keys cells) = []"
proof (induction keys arbitrary: cells)
  case (Cons key keys)
  note k = sensitive_named [OF assms, THEN conjunct1] sensitive_named [OF assms, THEN conjunct2]
  show ?case
  proof (cases "key = k")
    case True
    have "filter (spells k) (scrub_cells k cells) = []"
      using wipe_single [OF k Cons.prems(3)] by (simp add: scrub_cells_def spells_remove)
    with True scrub_list_none [OF k] show ?thesis by simp
  next
    case False
    then have "apart k key" using sensitive_pairs_apart [OF assms] Cons.prems(1) by simp
    from single_scrub [OF this Cons.prems(3)] Cons False show ?thesis by simp
  qed
qed simp

subsection \<open>Results of the intake\<close>

definition key_io :: "bytes io \<Rightarrow> bool" where
  "key_io m \<longleftrightarrow> (\<forall>w k w'. m w = (Ok k, w') \<longrightarrow> length k = 32)"

lemma key_io_bind: "(\<And>x. key_io (f x)) \<Longrightarrow> key_io (io_bind m f)"
  unfolding key_io_def by (blast elim: io_bind_OkE)

lemma key_io_err: "key_io (io_err e)"
  by (simp add: key_io_def)

lemma key_io_try: "(\<And>k. r = Inr k \<Longrightarrow> length k = 32) \<Longrightarrow> key_io (io_try g r)"
  by (cases r) (auto simp: key_io_def)

lemma key_io_parse: "key_io (parse_key c s)"
  unfolding parse_key_def by (rule key_io_try) (rule parse_key_bytes_length)

lemma key_io_load:
  assumes "digest_laws c"
  shows "key_io (load_secret_key c args)"
proof -
  have git: "key_io (git_fallback_key c)"
    unfolding git_fallback_key_def
    by (intro key_io_bind) (auto simp: key_io_def io_bind_def split: option.splits sum.splits
        prod.splits res.splits dest: parse_key_bytes_length)
  have mn: "key_io (load_mnemonic_key c args p m)" for p m
    unfolding load_mnemonic_key_def Let_def
    by (intro key_io_bind key_io_try) (rule derive_bip85_length [OF assms])
  show ?thesis
    unfolding load_secret_key_def load_from_def
    by (intro key_io_bind)
      (auto intro!: key_io_bind key_io_parse git mn split: option.split)
qed

text \<open>What holds of the world stays so: used for descriptors that were closed.\<close>

definition stays :: "(world \<Rightarrow> bool) \<Rightarrow> 'a io \<Rightarrow> bool" where
  "stays P m \<longleftrightarrow> (\<forall>w. P w \<longrightarrow> P (snd (m w)))"

lemma stays_bind: "stays P m \<Longrightarrow> (\<And>x. stays P (f x)) \<Longrightarrow> stays P (io_bind m f)"
  by (auto simp: stays_def io_bind_def split: prod.splits res.splits)

lemma stays_keeps: "keeps f m \<Longrightarrow> stays (\<lambda>w. Q (f w)) m"
  by (simp add: stays_def keeps_def)

abbreviation closed_in :: "int \<Rightarrow> world \<Rightarrow> bool" where
  "closed_in fd \<equiv> (\<lambda>w. fd \<in> set (w_closed w))"

lemma stays_closed_secret_fd: "stays (closed_in fd) (read_secret_fd flag n)"
  unfolding read_secret_fd_def
  by (intro stays_bind)
    (auto simp: stays_def set_cloexec_def fd_open_def fd_close_def io_try_def Let_def split: sum.split)

lemma stays_closed_mnemonic: "stays (closed_in fd) (load_mnemonic_key c args p m)"
  unfolding load_mnemonic_key_def Let_def
  by (intro stays_bind)
    (auto intro: stays_closed_secret_fd simp: stays_def io_try_def split: option.split sum.split
      dest: stays_closed_secret_fd [unfolded stays_def, rule_format])

subsection \<open>Properties\<close>

text \<open>
  C15. After \<open>load_secret_key\<close>, whatever its outcome, none of the six sensitive variables can
  be looked up; a variable with a single entry of valid UTF-8 is not spelled anywhere in the
  memory of the environment block any more; and the process is not dumpable.
\<close>

theorem load_scrubs_environment:
  assumes "load_secret_key c args w = (r, w')" and "key \<in> set sensitive_vars"
  shows "env_lookup key (w_environ w') = None \<and> \<not> w_dumpable w' \<and>
    (single key (w_environ w) \<longrightarrow> (\<forall>ep \<in> set (w_environ w'). \<not> spells key ep))"
proof -
  note env = load_secret_key_environ [OF assms(1)]
  have "filter (spells key) (w_environ w') = []" if "single key (w_environ w)"
    unfolding env using scrub_list_wipes [OF assms(2) subset_refl assms(2) that] .
  then show ?thesis
    using scrub_list_None [of key sensitive_vars "w_environ w"] assms(2) sensitive_named [OF assms(2)]
      load_secret_key_undumpable [OF assms(1)]
    by (auto simp: env filter_empty_conv)
qed

theorem load_scrubs_environment_witness:
  "\<exists>r w'. load_secret_key demo no_key_args
      (demo_world\<lparr>w_environ := [\<lparr>cell_text = ''PIPE_K1_SEC_KEY=aa'', cell_linked = True\<rparr>]\<rparr>) = (r, w') \<and>
     (\<forall>ep \<in> set (w_environ w'). \<not> spells ''PIPE_K1_SEC_KEY'' ep)"
proof -
  let ?cells = "[\<lparr>cell_text = ''PIPE_K1_SEC_KEY=aa'', cell_linked = True\<rparr>]"
  have "\<forall>ch \<in> set ''PIPE_K1_SEC_KEY=aa''. code ch < 128" by simp
  then have "utf8_valid (str_bytes ''PIPE_K1_SEC_KEY=aa'')" by (rule utf8_valid_str)
  then have s: "single ''PIPE_K1_SEC_KEY'' ?cells" by (simp add: single_def)
  obtain r w' where l: "load_secret_key demo no_key_args (demo_world\<lparr>w_environ := ?cells\<rparr>) = (r, w')"
    by fastforce
  from load_scrubs_environment [OF l, of "''PIPE_K1_SEC_KEY''"] s l show ?thesis
    by (simp add: sensitive_vars_def)
qed

text \<open>
  C34. The descriptor that a key is read from is closed whatever comes of the intake: the one of
  \<open>--sec-fd\<close>, and the one of \<open>--mnemonic-fd\<close> when neither \<open>--sec-fd\<close> nor \<open>--sec-file\<close> is given.
\<close>

theorem secret_fd_closed:
  assumes "load_secret_key c args w = (r, w')" and "fd \<noteq> -1"
    and "sec_fd args = Some fd \<or>
      (sec_fd args = None \<and> sec_file args = None \<and> mnemonic_fd args = Some fd)"
  shows "fd \<in> set (w_closed w')"
proof (cases "sec_fd args")
  case (Some n)
  with assms(3) have n: "sec_fd args = Some fd" by auto
  obtain q w1 where rd: "read_secret_fd ''--sec-fd'' fd (scrubbed w) = (q, w1)" by fastforce
  have "w' = w1"
    using assms(1) n rd by (cases q)
      (auto simp: load_secret_key_run load_from_def io_bind_def parse_key_def io_try_def split: sum.splits)
  with read_secret_fd_closes [OF assms(2) rd] show ?thesis by simp
next
  case None
  with assms(3) have n: "sec_fd args = None" "sec_file args = None" "mnemonic_fd args = Some fd" by auto
  obtain q w1 where rd: "read_secret_fd ''--mnemonic-fd'' fd (scrubbed w) = (q, w1)" by fastforce
  note cl = read_secret_fd_closes [OF assms(2) rd]
  show ?thesis
  proof (cases q)
    case (Ok s)
    obtain p where "load_mnemonic_key c args p s w1 = (r, w')"
      using assms(1) n rd Ok by (auto simp: load_secret_key_run load_from_def mnemonic_input_def io_bind_def)
    with stays_closed_mnemonic [of fd c args p s] cl show ?thesis
      unfolding stays_def by (metis snd_conv)
  qed (use assms(1) n rd cl in \<open>auto simp: load_secret_key_run load_from_def mnemonic_input_def io_bind_def\<close>)
qed

theorem secret_fd_closed_witness:
  "\<exists>r w'. load_secret_key demo (no_key_args\<lparr>sec_fd := Some 5\<rparr>) demo_world = (r, w') \<and> 5 \<in> set (w_closed w')"
proof -
  obtain r w' where l: "load_secret_key demo (no_key_args\<lparr>sec_fd := Some 5\<rparr>) demo_world = (r, w')" by fastforce
  with secret_fd_closed [OF l, of 5] show ?thesis by simp
qed



text \<open>
  C31. A key that loads has 32 bytes; every error of the intake is a usage error, which the
  process reports with exit code 2; and the intake writes nothing to standard output.
\<close>

theorem load_secret_key_result:
  assumes "digest_laws c" and "load_secret_key c args w = (r, w')"
  shows "(\<forall>k. r = Ok k \<longrightarrow> length k = 32) \<and> (\<forall>e. r = Err e \<longrightarrow> exit_code e = 2) \<and>
    w_stdout w' = w_stdout w"
  using key_io_load [OF assms(1), of args] load_secret_key_usage [of c args] assms(2)
    keepsD [OF keeps_load_stdout assms(2)]
  unfolding key_io_def only_usage_def usage_only_def by (metis fst_conv)

theorem load_secret_key_result_witness:
  "\<exists>r w'. load_secret_key demo no_key_args demo_world = (r, w') \<and> (\<forall>e. r = Err e \<longrightarrow> exit_code e = 2)"
proof -
  obtain r w' where l: "load_secret_key demo no_key_args demo_world = (r, w')" by fastforce
  with load_secret_key_result [OF demo_digest l] show ?thesis by blast
qed

text \<open>
  C36. The text forms of a key: the hexadecimal, \<open>npub\<close> and \<open>nsec\<close> text of 32 bytes all parse
  back to them, the last two without regard to which of the two it is.
\<close>

theorem key_text_roundtrip:
  assumes "codec_laws c" and "length k = 32"
  shows "parse_key_bytes c (hex_encode c k) = Inr k \<and>
    (\<exists>s. encode_npub c k = Some s \<and> parse_key_bytes c s = Inr k) \<and>
    (\<forall>s. bech32_encode c ''nsec'' k = Some s \<longrightarrow> parse_key_bytes c s = Inr k)"
proof -
  obtain s where "encode_npub c k = Some s" using npub_total [OF assms] by blast
  then show ?thesis
    using parse_key_hex [OF assms] parse_key_bech32 [OF assms] by (auto simp: encode_npub_def)
qed

theorem key_text_roundtrip_witness:
  "parse_key_bytes demo (demo_hex (replicate 32 7)) = Inr (replicate 32 7) \<and>
   parse_key_bytes demo (''nsec1'' @ demo_hex (replicate 32 7)) = Inr (replicate 32 7)"
  using key_text_roundtrip [OF demo_codec, of "replicate 32 7"] by (simp add: demo_def)

text \<open>
  A BIP-85 key is the first 32 bytes of the HMAC of the private key at the path of the
  identity and the index, keyed with the constant of BIP-85, and is a valid scalar.
\<close>

theorem bip85_key:
  assumes "derive_bip85_operational_key c m p identity index = Inr k"
  shows "(\<exists>root path child.
      xprv_new c (mnemonic_seed c (trim m) (trim p)) = Inr root \<and>
      path_parse c (bip85_path identity index) = Inr path \<and>
      derive_path c root path = Inr child \<and>
      k = take 32 (hmac_sha512 c (str_bytes ''bip-entropy-from-k'') (xprv_key c child))) \<and>
    k \<noteq> replicate 32 0 \<and> signing_key c k = Inr ()"
  using assms derive_bip85_valid [OF assms]
  by (auto simp: derive_bip85_operational_key_def Let_def slice_def split: if_splits sum.splits)

theorem bip85_key_witness:
  "\<exists>k. derive_bip85_operational_key demo ''abandon'' [] 0 0 = Inr k \<and> signing_key demo k = Inr ()"
proof -
  have "\<not> isl (derive_bip85_operational_key demo ''abandon'' [] 0 0)" by code_simp
  then obtain k where "derive_bip85_operational_key demo ''abandon'' [] 0 0 = Inr k"
    by (auto simp: isl_def split: sum.splits) (metis sum.exhaust)
  with bip85_key [OF this] show ?thesis by blast
qed

end
