(* ===== verification/Wire.thy ===== *)
theory Wire
  imports Demo
begin

text \<open>
  The wire constants and the pure helpers of \<open>rust/src/main.rs\<close>: the tagged hash, the STREAM
  nonce and its additional data, the key schedule, the header MAC, Diffie-Hellman on x-only
  keys, and the 97-byte header as \<open>run_encrypt\<close> assembles it. The layout lemmas say which
  bytes each of them is made of; \<open>counter_nonce\<close> is the interface of a nonce builder, with
  the uniqueness of nonces along a stream proved once for both builders of the program.
\<close>

subsection \<open>Constants\<close>

definition MAGIC_HEADER :: bytes where
  "MAGIC_HEADER = str_bytes ''PK01''"

definition MAGIC_SIGNATURE :: bytes where
  "MAGIC_SIGNATURE = str_bytes ''PKSG''"

definition WIRE_HEADER_SIZE :: nat where "WIRE_HEADER_SIZE = 97"
definition CHUNK_HEADER_SIZE :: nat where "CHUNK_HEADER_SIZE = 5"
definition SIGNATURE_PAYLOAD_SIZE :: nat where "SIGNATURE_PAYLOAD_SIZE = 105"
definition CHUNK_SIZE :: nat where "CHUNK_SIZE = 65536"
definition TAG_SIZE :: nat where "TAG_SIZE = 16"
definition TRAILER_SIZE :: nat where "TRAILER_SIZE = 96"

definition TAG_SIGN :: string where "TAG_SIGN = ''pipe-k1/v1/sign''"
definition TAG_SIGN_LEGACY :: string where "TAG_SIGN_LEGACY = ''pipek1/v1/sign''"
definition TAG_AUTH :: string where "TAG_AUTH = ''pipe-k1/v1/auth''"
definition TAG_ENTROPY :: string where "TAG_ENTROPY = ''pipe-k1/v1/entropy''"
definition INFO_HEADER :: bytes where "INFO_HEADER = str_bytes ''pipe-k1/v1/header''"
definition INFO_STREAM :: bytes where "INFO_STREAM = str_bytes ''pipe-k1/v1/stream''"

lemmas size_defs = WIRE_HEADER_SIZE_def CHUNK_HEADER_SIZE_def SIGNATURE_PAYLOAD_SIZE_def
  TAG_SIZE_def TRAILER_SIZE_def

lemma length_magic [simp, len_simps]: "length MAGIC_HEADER = 4" "length MAGIC_SIGNATURE = 4"
  by (simp_all add: MAGIC_HEADER_def MAGIC_SIGNATURE_def)

lemma chunk_size_pos [simp]: "0 < CHUNK_SIZE" "CHUNK_SIZE \<noteq> 0"
  by (simp_all add: CHUNK_SIZE_def)

subsection \<open>Hashes, nonces, additional data\<close>

definition tagged_hash :: "crypto \<Rightarrow> string \<Rightarrow> bytes \<Rightarrow> bytes" where
  "tagged_hash c tag msg =
     (let tag_hash = sha256 c (str_bytes tag) in sha256 c (tag_hash @ tag_hash @ msg))"

definition build_nonce :: "u64 \<Rightarrow> u8 \<Rightarrow> bytes" where
  "build_nonce counter term_tag =
     (let nonce = replicate 12 0;
          nonce = blit nonce 0 (be64 counter);
          nonce = blit nonce 8 [0, 0, 0]
      in nonce[11 := term_tag])"

definition build_aad :: "bytes \<Rightarrow> u8 \<Rightarrow> u8 \<Rightarrow> bytes \<Rightarrow> u32 \<Rightarrow> u64 \<Rightarrow> u8 \<Rightarrow> bytes" where
  "build_aad magic version mode recip_pub chunk_len counter term_tag =
     (let aad = replicate 51 0;
          aad = blit aad 0 magic;
          aad = aad[4 := version];
          aad = aad[5 := mode];
          aad = blit aad 6 recip_pub;
          aad = blit aad 38 (be32 chunk_len);
          aad = blit aad 42 (be64 counter)
      in aad[50 := term_tag])"

lemma length_tagged_hash [len_simps]: "digest_laws c \<Longrightarrow> length (tagged_hash c tag msg) = 32"
  by (simp add: tagged_hash_def digest_laws_def Let_def)

lemma build_nonce_layout: "build_nonce counter term_tag = be64 counter @ [0, 0, 0, term_tag]"
  by (simp add: build_nonce_def blit_def list_update_append eval_nat_numeral Let_def)

lemma build_aad_layout:
  assumes "length magic = 4" and "length recip_pub = 32"
  shows "build_aad magic version mode recip_pub chunk_len counter term_tag =
           magic @ [version, mode] @ recip_pub @ be32 chunk_len @ be64 counter @ [term_tag]"
proof -
  have "replicate 51 (0 :: u8) =
          replicate 4 0 @ [0, 0] @ replicate 32 0 @ replicate 4 0 @ replicate 8 0 @ [0]"
    by (simp add: eval_nat_numeral)
  then show ?thesis
    using assms by (simp add: build_aad_def blit_def list_update_append Let_def)
qed

lemma length_build_nonce [simp, len_simps]: "length (build_nonce i t) = 12"
  by (simp add: build_nonce_layout)

lemma length_build_aad [simp, len_simps]:
  "length m = 4 \<Longrightarrow> length r = 32 \<Longrightarrow> length (build_aad m v d r l i t) = 51"
  by (simp add: build_aad_layout)

text \<open>The additional data determines every field it was built from.\<close>

lemma build_aad_inject:
  assumes "length r = 32" and "length r' = 32"
    and "build_aad MAGIC_HEADER v m r l i t = build_aad MAGIC_HEADER v' m' r' l' i' t'"
  shows "v = v' \<and> m = m' \<and> r = r' \<and> l = l' \<and> i = i' \<and> t = t'"
  using assms by (simp add: build_aad_layout append_eq_append_conv_if length_be32)

subsection \<open>Nonce builders\<close>

text \<open>
  The client of a nonce builder seals a sequence of blocks under one key, the \<open>i\<close>-th with
  counter \<open>i\<close>; it needs nonces of 12 bytes, no two of them equal. The provider promises
  that the counter can be read back from the nonce.
\<close>

locale counter_nonce =
  fixes nonce :: "u64 \<Rightarrow> 'x \<Rightarrow> bytes"
  assumes nonce_length: "length (nonce i x) = 12"
    and nonce_counter: "nonce i x = nonce j y \<Longrightarrow> i = j"
begin

lemma nonce_reuse:
  assumes "m < 2 ^ 64" and "n < 2 ^ 64" and "nonce (of_nat m) x = nonce (of_nat n) y"
  shows "m = n"
proof -
  have "(of_nat m :: u64) = of_nat n" using assms(3) by (rule nonce_counter)
  then have "unat (of_nat m :: u64) = unat (of_nat n :: u64)" by simp
  with assms(1,2) show ?thesis by (simp add: unat_of_nat)
qed

lemma nonces_distinct:
  assumes "n \<le> 2 ^ 64"
  shows "distinct (map (\<lambda>i. nonce (of_nat i) (x i)) [0..<n])"
  using assms by (auto simp: distinct_map inj_on_def intro: nonce_reuse)

end

lemma be64_append_inject: "be64 i @ xs = be64 j @ ys \<longleftrightarrow> i = j \<and> xs = ys"
  by (simp add: append_eq_append_conv_if)

interpretation stream_nonce: counter_nonce build_nonce
  by unfold_locales (simp_all add: build_nonce_layout be64_append_inject)

subsection \<open>Key schedule and header MAC\<close>

definition derive_keys :: "crypto \<Rightarrow> bytes \<Rightarrow> bytes \<Rightarrow> string + (bytes \<times> bytes)" where
  "derive_keys c ikm salt =
     (case hkdf_expand c salt ikm INFO_HEADER 32 of
        Inl e \<Rightarrow> Inl (''HKDF header expand failed: '' @ e)
      | Inr header_key \<Rightarrow>
          (case hkdf_expand c salt ikm INFO_STREAM 32 of
             Inl e \<Rightarrow> Inl (''HKDF stream expand failed: '' @ e)
           | Inr payload_key \<Rightarrow> Inr (header_key, payload_key)))"

definition compute_header_hmac :: "crypto \<Rightarrow> bytes \<Rightarrow> bytes \<Rightarrow> bytes" where
  "compute_header_hmac c header_key header_81 = slice (hmac_sha256 c header_key header_81) 0 16"

lemma derive_keys_ok:
  assumes "digest_laws c"
  shows "\<exists>hk pk. derive_keys c ikm salt = Inr (hk, pk) \<and> length hk = 32 \<and> length pk = 32"
proof -
  have "\<exists>k. hkdf_expand c salt ikm info 32 = Inr k \<and> length k = 32" for info
    using assms by (simp add: digest_laws_def)
  then obtain hk pk where
    "hkdf_expand c salt ikm INFO_HEADER 32 = Inr hk" "length hk = 32"
    "hkdf_expand c salt ikm INFO_STREAM 32 = Inr pk" "length pk = 32"
    by metis
  then show ?thesis by (simp add: derive_keys_def)
qed

lemma length_header_hmac [len_simps]:
  "digest_laws c \<Longrightarrow> length (compute_header_hmac c k h) = 16"
  by (simp add: compute_header_hmac_def digest_laws_def)

subsection \<open>Diffie-Hellman\<close>

definition lift_x :: "crypto \<Rightarrow> bytes \<Rightarrow> string + affine" where
  "lift_x c x_bytes =
     (let sec1 = replicate 33 0;
          sec1 = sec1[0 := 0x02];
          sec1 = blit sec1 1 x_bytes
      in case from_sec1 c sec1 of
           Inl e \<Rightarrow> Inl (''Invalid curve point: '' @ e)
         | Inr pk \<Rightarrow> Inr pk)"

definition ecdh_shared_x :: "crypto \<Rightarrow> bytes \<Rightarrow> bytes \<Rightarrow> string + bytes" where
  "ecdh_shared_x c priv_scalar pub_x =
     (case nonzero_scalar c priv_scalar of
        Inl e \<Rightarrow> Inl (''Invalid private scalar: '' @ e)
      | Inr _ \<Rightarrow>
          (case lift_x c pub_x of
             Inl e \<Rightarrow> Inl e
           | Inr pt \<Rightarrow>
               (case point_mul c pt priv_scalar of
                  Infinity \<Rightarrow> Inl ''Point at infinity''
                | Affine x y \<Rightarrow> Inr (sha256 c x))))"

lemma lift_x_sec1:
  assumes "length x = 32"
  shows "lift_x c x =
    (case from_sec1 c (2 # x) of Inl e \<Rightarrow> Inl (''Invalid curve point: '' @ e) | Inr pk \<Rightarrow> Inr pk)"
proof -
  have "blit ((replicate 33 (0 :: u8))[0 := 2]) 1 x = 2 # x"
    using assms by (simp add: blit_def eval_nat_numeral)
  then show ?thesis by (simp add: lift_x_def)
qed

text \<open>Both ends of an exchange derive the same key material.\<close>

lemma ecdh_agreement:
  assumes "ecdh_laws c" and "signing_key c a = Inr ()" and "signing_key c b = Inr ()"
  shows "\<exists>ikm. ecdh_shared_x c a (verifying_key_of c b) = Inr ikm \<and>
               ecdh_shared_x c b (verifying_key_of c a) = Inr ikm"
proof -
  note laws = assms(1) [unfolded ecdh_laws_def, rule_format]
  from laws [OF assms(2,3)] laws [OF assms(3,2)] obtain P Q x y y' where
    "length (verifying_key_of c a) = 32" "nonzero_scalar c a = Inr ()"
    "length (verifying_key_of c b) = 32" "nonzero_scalar c b = Inr ()"
    "from_sec1 c (2 # verifying_key_of c b) = Inr P"
    "from_sec1 c (2 # verifying_key_of c a) = Inr Q"
    "point_mul c P a = Affine x y" "point_mul c Q b = Affine x y'"
    by blast
  then show ?thesis by (simp add: ecdh_shared_x_def lift_x_sec1)
qed

subsection \<open>The wire header\<close>

text \<open>The 97 bytes \<open>run_encrypt\<close> assembles, and the MAC it keeps for the trailer.\<close>

definition assemble_header ::
  "crypto \<Rightarrow> bytes \<Rightarrow> u8 \<Rightarrow> bytes \<Rightarrow> bytes \<Rightarrow> bytes \<Rightarrow> bytes \<times> bytes" where
  "assemble_header c header_key mode eph_pub_x recip_x salt =
     (let header = replicate WIRE_HEADER_SIZE 0;
          header = blit header 0 MAGIC_HEADER;
          header = header[4 := 0x01];
          header = header[5 := mode];
          header = blit header 6 eph_pub_x;
          header = blit header 38 recip_x;
          header = blit header 70 salt;
          hmac_16 = compute_header_hmac c header_key (slice header 0 81);
          header = blit header 81 hmac_16
      in (header, hmac_16))"

definition header_prefix :: "u8 \<Rightarrow> bytes \<Rightarrow> bytes \<Rightarrow> bytes \<Rightarrow> bytes" where
  "header_prefix mode eph_pub_x recip_x salt =
     MAGIC_HEADER @ [0x01, mode] @ eph_pub_x @ recip_x @ salt"

lemma length_header_prefix [simp, len_simps]:
  "length e = 32 \<Longrightarrow> length r = 32 \<Longrightarrow> length s = 11 \<Longrightarrow> length (header_prefix m e r s) = 81"
  by (simp add: header_prefix_def)

lemma assemble_header_layout:
  assumes "digest_laws c" and "length e = 32" and "length r = 32" and "length s = 11"
  shows "assemble_header c hk m e r s =
    (header_prefix m e r s @ compute_header_hmac c hk (header_prefix m e r s),
     compute_header_hmac c hk (header_prefix m e r s))"
proof -
  have zeros: "replicate WIRE_HEADER_SIZE (0 :: u8) =
      replicate 4 0 @ [0, 0] @ replicate 32 0 @ replicate 32 0 @ replicate 11 0 @ replicate 16 0"
    by (simp add: WIRE_HEADER_SIZE_def flip: replicate_add replicate_Suc)
  have hm: "length (compute_header_hmac c hk h) = 16" for h
    using assms(1) by (rule length_header_hmac)
  have pre: "blit (blit (blit ((blit (replicate WIRE_HEADER_SIZE 0) 0 MAGIC_HEADER)
      [4 := 0x01, 5 := m]) 6 e) 38 r) 70 s = header_prefix m e r s @ replicate 16 0"
    unfolding zeros using assms
    by (simp add: blit_def list_update_append header_prefix_def)
  have post: "blit (xs @ replicate 16 0) 81 h = xs @ h" if "length xs = 81" "length h = 16" for xs h
    using that by (simp add: blit_def)
  show ?thesis
    using assms(2-4) by (simp add: assemble_header_def Let_def pre post hm)
qed

text \<open>The fields of a header, as \<open>run_decrypt\<close> slices them.\<close>

lemma header_fields:
  assumes "length e = 32" and "length r = 32" and "length s = 11" and "length h = 16"
  shows "slice (header_prefix m e r s @ h) 0 4 = MAGIC_HEADER"
    and "(header_prefix m e r s @ h) ! 4 = 0x01"
    and "(header_prefix m e r s @ h) ! 5 = m"
    and "slice (header_prefix m e r s @ h) 6 38 = e"
    and "slice (header_prefix m e r s @ h) 38 70 = r"
    and "slice (header_prefix m e r s @ h) 70 81 = s"
    and "slice (header_prefix m e r s @ h) 0 81 = header_prefix m e r s"
    and "slice (header_prefix m e r s @ h) 81 97 = h"
  using assms by (simp_all add: header_prefix_def slice_def nth_append)

text \<open>A header is its fields: the slices of any 97 bytes that pass the two byte checks.\<close>

lemma header_of_fields:
  assumes "length hdr = 97" and "slice hdr 0 4 = MAGIC_HEADER" and "hdr ! 4 = 0x01"
  shows "hdr = header_prefix (hdr ! 5) (slice hdr 6 38) (slice hdr 38 70) (slice hdr 70 81)
                 @ slice hdr 81 97"
proof -
  have bytes: "slice hdr 4 5 = [hdr ! 4]" "slice hdr 5 6 = [hdr ! 5]"
    using assms(1) by (simp_all add: slice_def take_Suc hd_drop_conv_nth)
  have "hdr = slice hdr 0 97" using assms(1) by simp
  also have "\<dots> = slice hdr 0 4 @ slice hdr 4 5 @ slice hdr 5 6 @ slice hdr 6 38 @ slice hdr 38 70
      @ slice hdr 70 81 @ slice hdr 81 97"
    by (simp add: slice_split [of 0 4 97] slice_split [of 4 5 97] slice_split [of 5 6 97]
        slice_split [of 6 38 97] slice_split [of 38 70 97] slice_split [of 70 81 97])
  finally show ?thesis
    using assms(2,3) bytes by (simp add: header_prefix_def)
qed

subsection \<open>Properties\<close>



text \<open>
  C32. Two chunks whose version, mode, recipient, length, counter or terminal tag differ are
  sealed under different additional data, so a chunk cannot be moved, cut or relabelled
  without changing what its tag authenticates.
\<close>

theorem aad_separates:
  assumes "length r = 32" and "length r' = 32" and "(v, m, r, l, i, t) \<noteq> (v', m', r', l', i', t')"
  shows "build_aad MAGIC_HEADER v m r l i t \<noteq> build_aad MAGIC_HEADER v' m' r' l' i' t'"
  using assms build_aad_inject [OF assms(1,2)] by blast

theorem aad_separates_witness:
  "build_aad MAGIC_HEADER 1 2 (replicate 32 7) 5 0 0 \<noteq> build_aad MAGIC_HEADER 1 2 (replicate 32 7) 5 0 1"
  by (rule aad_separates) simp_all

text \<open>
  The header \<open>run_encrypt\<close> assembles has 97 bytes, and the offsets at which the receiver
  slices it give back the magic, the version, the mode, both public keys, the salt and the
  truncated MAC of its first 81 bytes.
\<close>

theorem header_layout:
  assumes "digest_laws c" and "length e = 32" and "length r = 32" and "length s = 11"
    and "assemble_header c hk m e r s = (hdr, mac)"
  shows "length hdr = WIRE_HEADER_SIZE \<and> slice hdr 0 4 = MAGIC_HEADER \<and> hdr ! 4 = 0x01 \<and> hdr ! 5 = m \<and>
    slice hdr 6 38 = e \<and> slice hdr 38 70 = r \<and> slice hdr 70 81 = s \<and>
    slice hdr 81 97 = mac \<and> mac = compute_header_hmac c hk (slice hdr 0 81)"
proof -
  let ?p = "header_prefix m e r s"
  have h: "hdr = ?p @ compute_header_hmac c hk ?p" "mac = compute_header_hmac c hk ?p"
    using assms(5) unfolding assemble_header_layout [OF assms(1-4)] by auto
  have l: "length (compute_header_hmac c hk ?p) = 16" using assms(1) by (rule length_header_hmac)
  show ?thesis
    unfolding h using header_fields [OF assms(2-4) l] assms(2-4) l by (simp add: WIRE_HEADER_SIZE_def)
qed

theorem header_layout_witness:
  "\<exists>hdr mac. assemble_header demo [9] 2 (replicate 32 1) (replicate 32 2) (replicate 11 3) = (hdr, mac) \<and>
     length hdr = WIRE_HEADER_SIZE \<and> slice hdr 70 81 = replicate 11 3"
proof -
  obtain hdr mac where a: "assemble_header demo [9] 2 (replicate 32 1) (replicate 32 2) (replicate 11 3) = (hdr, mac)"
    by fastforce
  with header_layout [OF demo_digest _ _ _ a] show ?thesis by simp
qed

end
