(* ===== verification/Encrypt.thy ===== *)
theory Encrypt
  imports Keys Wire
begin

text \<open>
  \<open>run_encrypt\<close> (\<open>rust/src/main.rs\<close>), in the stages the code has: the ephemeral scalar with its
  entropy hedging, the sender's key, the header, the loop over 64 KiB chunks with one chunk of
  lookahead, and the trailer of mode 1. \<open>wire_stream\<close> is the specification of what the loop
  writes for a plaintext; the lemmas relate the two on any standard input, however its bytes
  arrive.
\<close>

subsection \<open>Reading standard input\<close>

definition fill_buffer :: "nat \<Rightarrow> (io_error + bytes) io" where
  "fill_buffer n w = (case read_loop n [] (w_stdin w) of (r, rs) \<Rightarrow> (Ok r, w\<lparr>w_stdin := rs\<rparr>))"

text \<open>\<open>write_all(..)?\<close>\<close>

definition put :: "bytes \<Rightarrow> unit io" where
  "put bs = io_bind (stdout_write_all bs) (io_try from_io)"

subsection \<open>The ephemeral scalar\<close>

definition bad_scalar :: "crypto \<Rightarrow> bytes \<Rightarrow> bool" where
  "bad_scalar c mixed \<longleftrightarrow> signing_key c mixed \<noteq> Inr () \<or> mixed = replicate 32 0"

text \<open>The re-hashing loop; it has no result when every hash of the chain is a bad scalar.\<close>

partial_function (option) rehash :: "crypto \<Rightarrow> bytes \<Rightarrow> bytes option" where
  "rehash c mixed =
     (if bad_scalar c mixed then rehash c (tagged_hash c TAG_ENTROPY mixed) else Some mixed)"

text \<open>
  The loop returns the first hash of the chain that is a valid scalar, and returns at all
  exactly when there is one.
\<close>

abbreviation entropy_chain :: "crypto \<Rightarrow> bytes \<Rightarrow> nat \<Rightarrow> bytes" where
  "entropy_chain c mixed n \<equiv> (tagged_hash c TAG_ENTROPY ^^ n) mixed"

lemma rehash_finds:
  "\<forall>i < n. bad_scalar c (entropy_chain c mixed i) \<Longrightarrow> \<not> bad_scalar c (entropy_chain c mixed n) \<Longrightarrow>
     rehash c mixed = Some (entropy_chain c mixed n)"
proof (induction n arbitrary: mixed)
  case 0
  then show ?case by (simp add: rehash.simps [of c mixed])
next
  case (Suc n)
  have shift: "entropy_chain c mixed (Suc i) = entropy_chain c (tagged_hash c TAG_ENTROPY mixed) i" for i
    by (simp only: funpow_Suc_right comp_def)
  have "bad_scalar c mixed" using Suc.prems(1) by (metis funpow_0 zero_less_Suc)
  moreover have "\<forall>i < n. bad_scalar c (entropy_chain c (tagged_hash c TAG_ENTROPY mixed) i)"
    using Suc.prems(1) shift by (metis Suc_less_eq)
  moreover have "\<not> bad_scalar c (entropy_chain c (tagged_hash c TAG_ENTROPY mixed) n)"
    using Suc.prems(2) shift by metis
  ultimately show ?case
    using Suc.IH shift by (metis rehash.simps)
qed

lemma rehash_first:
  assumes "rehash c mixed = Some y"
  shows "\<not> bad_scalar c y \<and> (\<exists>n. y = entropy_chain c mixed n)"
proof (rule rehash.raw_induct [OF _ assms, where P = "\<lambda>c mixed y.
    \<not> bad_scalar c y \<and> (\<exists>n. y = entropy_chain c mixed n)"])
  fix rec c mixed y
  assume IH: "\<And>c mixed y. rec c mixed = Some y \<Longrightarrow>
      \<not> bad_scalar c y \<and> (\<exists>n. y = entropy_chain c mixed n)"
    and eq: "(if bad_scalar c mixed then rec c (tagged_hash c TAG_ENTROPY mixed) else Some mixed) = Some y"
  show "\<not> bad_scalar c y \<and> (\<exists>n. y = entropy_chain c mixed n)"
  proof (cases "bad_scalar c mixed")
    case True
    with IH eq obtain n where "\<not> bad_scalar c y" "y = entropy_chain c (tagged_hash c TAG_ENTROPY mixed) n"
      by (metis (full_types))
    then show ?thesis by (metis comp_apply funpow_Suc_right)
  next
    case False
    with eq show ?thesis by (metis funpow_0 option.inject)
  qed
qed

lemma rehash_None_iff: "rehash c mixed = None \<longleftrightarrow> (\<forall>n. bad_scalar c (entropy_chain c mixed n))"
proof
  assume none: "rehash c mixed = None"
  show "\<forall>n. bad_scalar c (entropy_chain c mixed n)"
  proof
    fix n show "bad_scalar c (entropy_chain c mixed n)"
    proof (induction n rule: less_induct)
      case (less n)
      with none rehash_finds [of n c mixed] show ?case by fastforce
    qed
  qed
next
  assume "\<forall>n. bad_scalar c (entropy_chain c mixed n)"
  then show "rehash c mixed = None"
    using rehash_first by (metis not_Some_eq)
qed

definition mix_entropy :: "crypto \<Rightarrow> bytes \<Rightarrow> bytes \<Rightarrow> bytes option" where
  "mix_entropy c os_entropy physical_entropy =
     rehash c (tagged_hash c TAG_ENTROPY (os_entropy @ physical_entropy))"

definition ephemeral_secret :: "crypto \<Rightarrow> int option \<Rightarrow> bytes io" where
  "ephemeral_secret c entropy_fd =
     io_bind (os_random 32) (\<lambda>os_entropy.
     case entropy_fd of
       None \<Rightarrow> io_return os_entropy
     | Some fd_num \<Rightarrow>
         io_bind (set_cloexec fd_num) (\<lambda>_.
         io_bind (fd_open fd_num) (\<lambda>f.
         io_bind (fd_close fd_num) (\<lambda>_.
         io_bind (io_try (\<lambda>e. UsageError (''Failed to read entropy fd: '' @ io_msg e))
                    (fst (read_loop CHUNK_SIZE [] f))) (\<lambda>physical_entropy.
         if physical_entropy = [] then io_err (UsageError ''Entropy file descriptor was empty'')
         else (case mix_entropy c os_entropy physical_entropy of
                 None \<Rightarrow> io_diverge
               | Some mixed \<Rightarrow> io_return mixed))))))"

subsection \<open>The sender's key (mode 1)\<close>

definition map_io_err :: "(pipek1_error \<Rightarrow> pipek1_error) \<Rightarrow> 'a io \<Rightarrow> 'a io" where
  "map_io_err g m w = (case m w of (r, w') \<Rightarrow> (map_err g r, w'))"

definition sender_intake :: "crypto \<Rightarrow> u8 \<Rightarrow> key_intake_args \<Rightarrow> bytes option io" where
  "sender_intake c mode key_args =
     (if mode = 0x01 then
        io_bind (map_io_err (\<lambda>e. UsageError (''Mode 1 requires sender secret key: '' @ fmt_error e))
                   (load_secret_key c key_args)) (\<lambda>sender_priv.
        io_bind (io_try (\<lambda>e. UsageError (''Invalid sender secret scalar: '' @ e))
                   (signing_key c sender_priv)) (\<lambda>_.
        io_return (Some sender_priv)))
      else io_return None)"

subsection \<open>The chunk loop\<close>

definition chunk_header :: "u32 \<Rightarrow> u8 \<Rightarrow> bytes" where
  "chunk_header chunk_len term_tag =
     (let ch = replicate CHUNK_HEADER_SIZE 0;
          ch = blit ch 0 (be32 chunk_len)
      in ch[4 := term_tag])"

definition emit_chunk ::
  "crypto \<Rightarrow> bytes \<Rightarrow> bytes \<Rightarrow> u8 \<Rightarrow> u64 \<Rightarrow> u8 \<Rightarrow> bytes \<Rightarrow> unit io" where
  "emit_chunk c payload_key recip_x mode chunk_counter term_tag cur =
     (let chunk_len = of_nat (length cur) :: u32;
          nonce_bytes = build_nonce chunk_counter term_tag;
          aad = build_aad MAGIC_HEADER 0x01 mode recip_x chunk_len chunk_counter term_tag
      in io_bind (put (chunk_header chunk_len term_tag)) (\<lambda>_.
         io_bind (io_try (\<lambda>e. UsageError (''Chunk encryption failed: '' @ e))
                    (aead_seal c payload_key nonce_bytes aad cur)) (\<lambda>(block, tag).
         io_bind (put block) (\<lambda>_. put tag))))"

lemma keeps_stdin_put [quiet_rules]: "keeps w_stdin (put bs)"
  unfolding put_def
  by (intro keeps_bind keeps_try) (simp add: keeps_def stdout_write_all_def split: option.splits)

lemma keeps_stdin_emit: "keeps w_stdin (emit_chunk c k r m i t b)"
  unfolding emit_chunk_def Let_def by (intro quiet_rules)

lemma fill_buffer_progress:
  assumes "fill_buffer n w = (Ok r, w1)" and "io_try from_io r w1 = (Ok bs, w2)" and "bs \<noteq> []"
  shows "length (rd_bytes (w_stdin w2)) < length (rd_bytes (w_stdin w))"
proof -
  obtain rs where "read_loop n [] (w_stdin w) = (r, rs)" and w1: "w1 = w\<lparr>w_stdin := rs\<rparr>"
    using assms(1) by (auto simp: fill_buffer_def split: prod.splits)
  moreover have "r = Inr bs" "w2 = w1" using assms(2) by (auto elim: io_try_OkE)
  ultimately have "rd_bytes (w_stdin w) = bs @ rd_bytes (w_stdin w2)"
    using read_loop_bytes by fastforce
  with assms(3) show ?thesis by simp
qed

lemma io_bind_cong [fundef_cong]:
  assumes "w = w'" and "m w' = m' w'" and "\<And>x v. m' w' = (Ok x, v) \<Longrightarrow> f x v = g x v"
  shows "io_bind m f w = io_bind m' g w'"
  using assms by (auto simp: io_bind_def split: prod.splits res.splits)

text \<open>\<open>hashed\<close> is what the plaintext hasher was fed; the loop returns it at the end.\<close>

function encrypt_loop ::
  "crypto \<Rightarrow> bytes \<Rightarrow> bytes \<Rightarrow> u8 \<Rightarrow> u64 \<Rightarrow> bytes \<Rightarrow> bytes \<Rightarrow> bytes io" where
  "encrypt_loop c payload_key recip_x mode chunk_counter cur hashed w =
     io_bind (fill_buffer CHUNK_SIZE) (\<lambda>r w1.
     io_bind (io_try from_io r) (\<lambda>next_buf w2.
     let term_tag = (if next_buf = [] then 0x01 else 0x00);
         hashed = (if mode = 0x01 then hashed @ cur else hashed)
     in io_bind (emit_chunk c payload_key recip_x mode chunk_counter term_tag cur) (\<lambda>_ w3.
        if chunk_counter = -1 then io_err (UsageError ''Chunk counter overflow'') w3
        else if next_buf = [] then io_return hashed w3
        else encrypt_loop c payload_key recip_x mode (chunk_counter + 1) next_buf hashed w3) w2) w1) w"
  by pat_completeness auto
termination
proof (relation "measure (\<lambda>(c, k, r, m, i, b, h, w). length (rd_bytes (w_stdin w)))", goal_cases)
  case (2 c k r m i b h w res w1 nb w2 h2 t u w3)
  have "length (rd_bytes (w_stdin w2)) < length (rd_bytes (w_stdin w))"
    using fill_buffer_progress 2 by blast
  moreover have "w_stdin w3 = w_stdin w2"
    using keepsD [OF keeps_stdin_emit] 2 by metis
  ultimately show ?case by simp
qed simp

declare encrypt_loop.simps [simp del]

subsection \<open>The trailer and the whole command\<close>

text \<open>What the sender signs: the header's MAC and the digest of the plaintext.\<close>

definition auth_transcript :: "crypto \<Rightarrow> bytes \<Rightarrow> bytes \<Rightarrow> bytes" where
  "auth_transcript c hmac_16 plaintext =
     blit (blit (replicate 48 0) 0 hmac_16) 16 (sha256 c plaintext)"

definition auth_hash :: "crypto \<Rightarrow> bytes \<Rightarrow> bytes \<Rightarrow> bytes" where
  "auth_hash c hmac_16 plaintext = tagged_hash c TAG_AUTH (auth_transcript c hmac_16 plaintext)"

definition emit_trailer :: "crypto \<Rightarrow> bytes option \<Rightarrow> bytes \<Rightarrow> bytes \<Rightarrow> unit io" where
  "emit_trailer c sender_signing_key hmac_16 hashed =
     (case sender_signing_key of
        None \<Rightarrow> io_return ()
      | Some k \<Rightarrow>
          let sender_pub = verifying_key_of c k
          in io_bind (io_try (\<lambda>e. UsageError (''Trailer signing failed: '' @ e))
                        (sign_raw c k (auth_hash c hmac_16 hashed) (replicate 32 0))) (\<lambda>sig.
             io_bind (put sender_pub) (\<lambda>_. put sig)))"

text \<open>Everything from the header on, once the keys are there.\<close>

definition encrypt_stream ::
  "crypto \<Rightarrow> u8 \<Rightarrow> bytes \<Rightarrow> bytes \<Rightarrow> bytes \<Rightarrow> bytes option \<Rightarrow> bytes \<Rightarrow> bytes \<Rightarrow> unit io" where
  "encrypt_stream c mode eph_pub_x recip_x salt sender_signing_key header_key payload_key =
     (let (header, hmac_16) = assemble_header c header_key mode eph_pub_x recip_x salt
      in io_bind (put header) (\<lambda>_.
         io_bind (fill_buffer CHUNK_SIZE) (\<lambda>r.
         io_bind (io_try from_io r) (\<lambda>cur.
         io_bind (encrypt_loop c payload_key recip_x mode 0 cur []) (\<lambda>hashed.
         io_bind (emit_trailer c sender_signing_key hmac_16 hashed) (\<lambda>_.
         io_bind stdout_flush (io_try from_io)))))))"

definition run_encrypt :: "crypto \<Rightarrow> string \<Rightarrow> u8 \<Rightarrow> key_intake_args \<Rightarrow> int option \<Rightarrow> unit io" where
  "run_encrypt c recipient_hex mode key_args entropy_fd =
     io_bind (io_try UsageError (parse_key_bytes c recipient_hex)) (\<lambda>recip_x.
     io_bind (ephemeral_secret c entropy_fd) (\<lambda>eph_priv_bytes.
     io_bind (io_try (\<lambda>e. UsageError (''Invalid ephemeral secret scalar: '' @ e))
                (signing_key c eph_priv_bytes)) (\<lambda>_.
     let eph_pub_x = verifying_key_of c eph_priv_bytes
     in io_bind (os_random 11) (\<lambda>salt.
        io_bind (sender_intake c mode key_args) (\<lambda>sender_signing_key.
        io_bind (io_try (\<lambda>e. UsageError (''ECDH calculation failed: '' @ e))
                   (ecdh_shared_x c eph_priv_bytes recip_x)) (\<lambda>ikm.
        io_bind (io_try (\<lambda>e. UsageError (''Key derivation failed: '' @ e))
                   (derive_keys c ikm salt)) (\<lambda>(header_key, payload_key).
        encrypt_stream c mode eph_pub_x recip_x salt sender_signing_key header_key payload_key)))))))"

subsection \<open>The wire format of a stream\<close>

text \<open>
  One sealed chunk, the stream of a list of plaintext blocks (the last one terminal), and the
  blocks of a plaintext: 64 KiB each but the last, and one empty block for an empty plaintext.
\<close>

definition wire_chunk :: "crypto \<Rightarrow> bytes \<Rightarrow> bytes \<Rightarrow> u8 \<Rightarrow> u64 \<Rightarrow> u8 \<Rightarrow> bytes \<Rightarrow> bytes" where
  "wire_chunk c k r mode i t b =
     (case aead_seal c k (build_nonce i t)
             (build_aad MAGIC_HEADER 0x01 mode r (of_nat (length b)) i t) b of
        Inl e \<Rightarrow> []
      | Inr (ct, tag) \<Rightarrow> be32 (of_nat (length b)) @ [t] @ ct @ tag)"

fun wire_stream :: "crypto \<Rightarrow> bytes \<Rightarrow> bytes \<Rightarrow> u8 \<Rightarrow> u64 \<Rightarrow> bytes list \<Rightarrow> bytes" where
  "wire_stream c k r mode i [] = []"
| "wire_stream c k r mode i [b] = wire_chunk c k r mode i 0x01 b"
| "wire_stream c k r mode i (b # b' # bs) =
     wire_chunk c k r mode i 0x00 b @ wire_stream c k r mode (i + 1) (b' # bs)"

definition plain_blocks :: "bytes \<Rightarrow> bytes list" where
  "plain_blocks p = (if p = [] then [[]] else chunks CHUNK_SIZE p)"

lemma chunk_header_layout: "chunk_header l t = be32 l @ [t]"
  by (simp add: chunk_header_def CHUNK_HEADER_SIZE_def blit_def list_update_append eval_nat_numeral Let_def)

lemma auth_transcript_layout:
  assumes "digest_laws c" and "length h = 16"
  shows "auth_transcript c h p = h @ sha256 c p"
proof -
  have "replicate 48 (0 :: u8) = replicate 16 0 @ replicate 32 0"
    by (simp flip: replicate_add)
  with assms show ?thesis by (simp add: auth_transcript_def blit_def digest_laws_def)
qed

lemma plain_blocks_cons:
  "CHUNK_SIZE < length p \<Longrightarrow>
     plain_blocks p = take CHUNK_SIZE p # plain_blocks (drop CHUNK_SIZE p)"
  by (subst plain_blocks_def) (auto simp: plain_blocks_def chunks_rec [of CHUNK_SIZE p])

lemma plain_blocks_last: "length p \<le> CHUNK_SIZE \<Longrightarrow> plain_blocks p = [p]"
  by (simp add: plain_blocks_def chunks_short)

lemma plain_blocks_nonempty [simp]: "plain_blocks p \<noteq> []"
  by (simp add: plain_blocks_def)

lemma concat_plain_blocks [simp]: "concat (plain_blocks p) = p"
  by (simp add: plain_blocks_def)

lemma plain_blocks_length: "b \<in> set (plain_blocks p) \<Longrightarrow> length b \<le> CHUNK_SIZE"
  using chunks_nonempty [of CHUNK_SIZE b p] by (auto simp: plain_blocks_def split: if_splits)

lemma wire_stream_cons:
  "bs \<noteq> [] \<Longrightarrow> wire_stream c k r m i (b # bs) =
     wire_chunk c k r m i 0x00 b @ wire_stream c k r m (i + 1) bs"
  by (cases bs) simp_all

subsection \<open>Running the loop\<close>

lemma put_room: "w_room w = None \<Longrightarrow> put bs w = (Ok (), w\<lparr>w_stdout := w_stdout w @ bs\<rparr>)"
  by (simp add: put_def io_bind_def stdout_write_all_room)

lemma fill_buffer_live:
  assumes "live (w_stdin w)"
  obtains rs where "fill_buffer n w = (Ok (Inr (take n (rd_bytes (w_stdin w)))), w\<lparr>w_stdin := rs\<rparr>)"
    and "rd_bytes rs = drop n (rd_bytes (w_stdin w))" and "live rs"
  using read_loop_live [OF assms, of "[]" n] by (auto simp: fill_buffer_def)

lemma wire_chunk_ok:
  assumes "aead_laws c" and "length k = 32" and "length b \<le> CHUNK_SIZE"
  obtains ct tag where
    "aead_seal c k (build_nonce i t) (build_aad MAGIC_HEADER 0x01 m r (of_nat (length b)) i t) b = Inr (ct, tag)"
    and "wire_chunk c k r m i t b = be32 (of_nat (length b)) @ [t] @ ct @ tag"
    and "length ct = length b" and "length tag = TAG_SIZE"
    and "aead_open c k (build_nonce i t) (build_aad MAGIC_HEADER 0x01 m r (of_nat (length b)) i t) ct tag = Inr b"
proof -
  have "length b \<le> 2 ^ 32" using assms(3) by (simp add: CHUNK_SIZE_def)
  then obtain ct tag where s:
    "aead_seal c k (build_nonce i t) (build_aad MAGIC_HEADER 0x01 m r (of_nat (length b)) i t) b = Inr (ct, tag)"
    "length ct = length b" "length tag = 16"
    "aead_open c k (build_nonce i t) (build_aad MAGIC_HEADER 0x01 m r (of_nat (length b)) i t) ct tag = Inr b"
    using aead_seal_ok [OF assms(1,2) stream_nonce.nonce_length] by metis
  show ?thesis
    by (rule that [OF s(1) _ s(2) _ s(4)]) (use s in \<open>simp_all add: wire_chunk_def TAG_SIZE_def\<close>)
qed

lemma emit_chunk_room:
  assumes "aead_laws c" and "length k = 32" and "length b \<le> CHUNK_SIZE" and "w_room w = None"
  shows "emit_chunk c k r m i t b w = (Ok (), w\<lparr>w_stdout := w_stdout w @ wire_chunk c k r m i t b\<rparr>)"
proof -
  obtain ct tag where
    "aead_seal c k (build_nonce i t) (build_aad MAGIC_HEADER 0x01 m r (of_nat (length b)) i t) b = Inr (ct, tag)"
    "wire_chunk c k r m i t b = be32 (of_nat (length b)) @ [t] @ ct @ tag"
    by (rule wire_chunk_ok [OF assms(1-3)])
  with assms(4) show ?thesis
    by (simp add: emit_chunk_def Let_def io_bind_def put_room chunk_header_layout)
qed

lemma length_plain_blocks: "length (plain_blocks p) \<le> length p + 1"
proof (induction "length p" arbitrary: p rule: less_induct)
  case less
  show ?case
  proof (cases "CHUNK_SIZE < length p")
    case True
    then have "length (plain_blocks p) = length (plain_blocks (drop CHUNK_SIZE p)) + 1"
      by (simp add: plain_blocks_cons)
    moreover have "length (drop CHUNK_SIZE p) < length p"
      using True by (simp add: CHUNK_SIZE_def)
    ultimately show ?thesis using less [of "drop CHUNK_SIZE p"] by simp
  qed (simp add: plain_blocks_last)
qed

lemma counter_not_max: "n + 1 < 2 ^ 64 \<Longrightarrow> (of_nat n :: u64) \<noteq> -1"
proof
  assume n: "n + 1 < 2 ^ 64" and "(of_nat n :: u64) = -1"
  then have "unat (of_nat n :: u64) = unat (-1 :: u64)" by simp
  with n show False by (simp add: unat_of_nat unsigned_minus_1_eq_mask mask_eq_exp_minus_1)
qed

lemma encrypt_loop_room:
  assumes "aead_laws c" and "length k = 32"
  shows "live (w_stdin w) \<Longrightarrow> w_room w = None \<Longrightarrow> length cur \<le> CHUNK_SIZE \<Longrightarrow>
     rd_bytes (w_stdin w) \<noteq> [] \<longrightarrow> length cur = CHUNK_SIZE \<Longrightarrow>
     n + length (plain_blocks (cur @ rd_bytes (w_stdin w))) < 2 ^ 64 \<Longrightarrow>
     \<exists>rs. encrypt_loop c k r m (of_nat n) cur h w =
       (Ok (if m = 0x01 then h @ cur @ rd_bytes (w_stdin w) else h),
        w\<lparr>w_stdin := rs, w_stdout := w_stdout w @
          wire_stream c k r m (of_nat n) (plain_blocks (cur @ rd_bytes (w_stdin w)))\<rparr>)"
proof (induction "length (rd_bytes (w_stdin w))" arbitrary: n cur h w rule: less_induct)
  case less
  let ?in = "rd_bytes (w_stdin w)"
  let ?nb = "take CHUNK_SIZE ?in"
  let ?t = "if ?nb = [] then 0x01 else 0x00 :: u8"
  let ?h = "if m = 0x01 then h @ cur else h"
  obtain rs where fill: "fill_buffer CHUNK_SIZE w = (Ok (Inr ?nb), w\<lparr>w_stdin := rs\<rparr>)"
    and rs: "rd_bytes rs = drop CHUNK_SIZE ?in" "live rs"
    by (rule fill_buffer_live [OF less.prems(1)])
  define w1 where "w1 = w\<lparr>w_stdin := rs, w_stdout := w_stdout w @ wire_chunk c k r m (of_nat n) ?t cur\<rparr>"
  have "0 < length (plain_blocks (cur @ ?in))" by simp
  with less.prems(5) have "n + 1 < 2 ^ 64" by linarith
  then have n: "(of_nat n :: u64) \<noteq> -1" by (rule counter_not_max)
  have step: "encrypt_loop c k r m (of_nat n) cur h w =
      (if ?nb = [] then (Ok ?h, w1) else encrypt_loop c k r m (of_nat n + 1) ?nb ?h w1)"
    using n less.prems(2) emit_chunk_room [OF assms less.prems(3), of "w\<lparr>w_stdin := rs\<rparr>"]
    by (subst encrypt_loop.simps)
      (simp add: io_bind_def fill w1_def Let_def del: take_eq_Nil take_eq_Nil2)
  show ?case
  proof (cases "?in = []")
    case True
    with less.prems(3) step show ?thesis
      by (auto simp: w1_def plain_blocks_last)
  next
    case False
    with less.prems(4) have cur: "length cur = CHUNK_SIZE" by simp
    with False have blocks: "plain_blocks (cur @ ?in) = cur # plain_blocks ?in"
      by (subst plain_blocks_cons) simp_all
    have nb: "?nb \<noteq> []" "?nb @ rd_bytes (w_stdin w1) = ?in"
      using False rs(1) by (simp_all add: w1_def)
    have "\<exists>rs'. encrypt_loop c k r m (of_nat (Suc n)) ?nb ?h w1 =
       (Ok (if m = 0x01 then ?h @ ?nb @ rd_bytes (w_stdin w1) else ?h),
        w1\<lparr>w_stdin := rs', w_stdout := w_stdout w1 @
          wire_stream c k r m (of_nat (Suc n)) (plain_blocks (?nb @ rd_bytes (w_stdin w1)))\<rparr>)"
    proof (rule less.hyps)
      show "length (rd_bytes (w_stdin w1)) < length ?in"
        using False rs(1) by (simp add: w1_def)
      show "live (w_stdin w1)" "w_room w1 = None" "length ?nb \<le> CHUNK_SIZE"
        using rs(2) less.prems(2) by (simp_all add: w1_def)
      show "rd_bytes (w_stdin w1) \<noteq> [] \<longrightarrow> length ?nb = CHUNK_SIZE"
        using rs(1) by (simp add: w1_def)
      show "Suc n + length (plain_blocks (?nb @ rd_bytes (w_stdin w1))) < 2 ^ 64"
        using less.prems(5) by (simp only: nb(2) blocks) simp
    qed
    then obtain rs' where IH: "encrypt_loop c k r m (of_nat (Suc n)) ?nb ?h w1 =
       (Ok (if m = 0x01 then ?h @ ?in else ?h), w1\<lparr>w_stdin := rs', w_stdout := w_stdout w1 @
          wire_stream c k r m (of_nat (Suc n)) (plain_blocks ?in)\<rparr>)"
      unfolding nb(2) by blast
    have suc: "of_nat (Suc n) = (of_nat n + 1 :: u64)" by simp
    show ?thesis
      unfolding step using nb(1) IH [unfolded suc] False
      by (auto simp: w1_def blocks wire_stream_cons simp del: take_eq_Nil take_eq_Nil2)
  qed
qed

subsection \<open>What the command writes\<close>

definition sender_trailer :: "crypto \<Rightarrow> bytes option \<Rightarrow> bytes \<Rightarrow> bytes \<Rightarrow> string + bytes" where
  "sender_trailer c sender hmac_16 p =
     (case sender of
        None \<Rightarrow> Inr []
      | Some k \<Rightarrow>
          (case sign_raw c k (auth_hash c hmac_16 p) (replicate 32 0) of
             Inl e \<Rightarrow> Inl e | Inr sig \<Rightarrow> Inr (verifying_key_of c k @ sig)))"

definition wire_message ::
  "crypto \<Rightarrow> u8 \<Rightarrow> bytes \<Rightarrow> bytes \<Rightarrow> bytes \<Rightarrow> bytes \<Rightarrow> bytes \<Rightarrow> bytes \<Rightarrow> bytes \<Rightarrow> bytes" where
  "wire_message c mode eph_pub_x recip_x salt header_key payload_key p trailer =
     (let prefix = header_prefix mode eph_pub_x recip_x salt
      in prefix @ compute_header_hmac c header_key prefix @
         wire_stream c payload_key recip_x mode 0 (plain_blocks p) @ trailer)"

lemma emit_trailer_room:
  assumes "sender_trailer c sender h p = Inr tr" and "w_room w = None"
  shows "emit_trailer c sender h p w = (Ok (), w\<lparr>w_stdout := w_stdout w @ tr\<rparr>)"
proof (cases sender)
  case (Some k)
  with assms show ?thesis
    by (auto simp: emit_trailer_def sender_trailer_def Let_def io_bind_def put_room split: sum.splits)
qed (use assms in \<open>simp add: emit_trailer_def sender_trailer_def\<close>)

lemma auth_hash_length: "digest_laws c \<Longrightarrow> length (auth_hash c h p) = 32"
  by (simp add: auth_hash_def length_tagged_hash)

text \<open>On a live standard input and an output that does not fail, the stages after the key
  schedule append exactly one message, a function of the bytes of the input.\<close>

lemma encrypt_stream_room:
  fixes m e r s hk p
  defines "pre \<equiv> header_prefix m e r s"
  assumes laws: "digest_laws c" "aead_laws c"
    and len: "length e = 32" "length r = 32" "length s = 11" "length pk = 32"
    and w: "live (w_stdin w)" "w_room w = None" "w_flush_err w = None"
    and p: "p = rd_bytes (w_stdin w)" "length p + 1 < 2 ^ 64"
    and sender: "m = 0x01 \<or> sender = None"
    and tr: "sender_trailer c sender (compute_header_hmac c hk pre) p = Inr tr"
  shows "\<exists>rs. encrypt_stream c m e r s sender hk pk w =
    (Ok (), w\<lparr>w_stdin := rs, w_stdout := w_stdout w @ wire_message c m e r s hk pk p tr\<rparr>)"
proof -
  let ?hm = "compute_header_hmac c hk pre"
  note hdr = assemble_header_layout [OF laws(1) len(1-3), of hk m, folded pre_def]
  define w0 where "w0 = w\<lparr>w_stdout := w_stdout w @ pre @ ?hm\<rparr>"
  have live0: "live (w_stdin w0)" using w(1) by (simp add: w0_def)
  obtain rs0 where fill: "fill_buffer CHUNK_SIZE w0 =
      (Ok (Inr (take CHUNK_SIZE p)), w0\<lparr>w_stdin := rs0\<rparr>)"
    and rs0: "rd_bytes rs0 = drop CHUNK_SIZE p" "live rs0"
    by (rule fill_buffer_live [OF live0, of CHUNK_SIZE]) (simp add: w0_def p(1))
  define w1 where "w1 = w0\<lparr>w_stdin := rs0\<rparr>"
  have cat: "take CHUNK_SIZE p @ rd_bytes (w_stdin w1) = p" using rs0(1) by (simp add: w1_def)
  have "\<exists>rs. encrypt_loop c pk r m (of_nat 0) (take CHUNK_SIZE p) [] w1 =
       (Ok (if m = 0x01 then [] @ take CHUNK_SIZE p @ rd_bytes (w_stdin w1) else []),
        w1\<lparr>w_stdin := rs, w_stdout := w_stdout w1 @
          wire_stream c pk r m (of_nat 0) (plain_blocks (take CHUNK_SIZE p @ rd_bytes (w_stdin w1)))\<rparr>)"
  proof (rule encrypt_loop_room [OF laws(2) len(4)])
    show "live (w_stdin w1)" "w_room w1 = None" "length (take CHUNK_SIZE p) \<le> CHUNK_SIZE"
      using rs0(2) w(2) by (simp_all add: w1_def w0_def)
    show "rd_bytes (w_stdin w1) \<noteq> [] \<longrightarrow> length (take CHUNK_SIZE p) = CHUNK_SIZE"
      using rs0(1) by (simp add: w1_def)
    from cat length_plain_blocks [of p] p(2)
    show "0 + length (plain_blocks (take CHUNK_SIZE p @ rd_bytes (w_stdin w1))) < 2 ^ 64" by simp
  qed
  then obtain rs where loop: "encrypt_loop c pk r m 0 (take CHUNK_SIZE p) [] w1 =
       (Ok (if m = 0x01 then p else []), w1\<lparr>w_stdin := rs, w_stdout := w_stdout w1 @
          wire_stream c pk r m 0 (plain_blocks p)\<rparr>)"
    unfolding cat append_Nil by auto
  define hsh where "hsh = (if m = 0x01 then p else [])"
  define w2 where "w2 = w1\<lparr>w_stdin := rs, w_stdout := w_stdout w1 @ wire_stream c pk r m 0 (plain_blocks p)\<rparr>"
  have "sender_trailer c sender ?hm hsh = Inr tr"
    using tr sender by (auto simp: sender_trailer_def hsh_def)
  moreover have "w_room w2 = None" using w(2) by (simp add: w2_def w1_def w0_def)
  ultimately have trailer: "emit_trailer c sender ?hm hsh w2 = (Ok (), w2\<lparr>w_stdout := w_stdout w2 @ tr\<rparr>)"
    by (rule emit_trailer_room)
  have put0: "put (pre @ ?hm) w = (Ok (), w0)"
    using w(2) by (simp add: put_room w0_def)
  have flush: "stdout_flush (w2\<lparr>w_stdout := bs\<rparr>) = (Ok (Inr ()), w2\<lparr>w_stdout := bs\<rparr>)" for bs
    using w(3) by (simp add: stdout_flush_def w2_def w1_def w0_def)
  have "encrypt_stream c m e r s sender hk pk w = (Ok (), w2\<lparr>w_stdout := w_stdout w2 @ tr\<rparr>)"
    by (simp add: encrypt_stream_def hdr io_bind_def put0 fill w1_def [symmetric]
        loop [folded hsh_def w2_def] trailer flush)
  then show ?thesis
    by (auto simp: w2_def w1_def w0_def wire_message_def Let_def pre_def)
qed

text \<open>The whole command, given what its key stages return.\<close>

lemma run_encrypt_room:
  assumes laws: "digest_laws c" "aead_laws c"
    and recip: "parse_key_bytes c recip = Inr r"
    and eph: "ephemeral_secret c efd w = (Ok e, w1)" "signing_key c e = Inr ()"
      "length (verifying_key_of c e) = 32"
    and salt: "os_random 11 w1 = (Ok s, w2)"
    and sender: "sender_intake c m args w2 = (Ok sender, w3)"
    and ikm: "ecdh_shared_x c e r = Inr ikm"
    and keys: "derive_keys c ikm s = Inr (hk, pk)" "length pk = 32"
    and w3: "live (w_stdin w3)" "w_room w3 = None" "w_flush_err w3 = None"
    and p: "p = rd_bytes (w_stdin w3)" "length p + 1 < 2 ^ 64"
    and tr: "sender_trailer c sender
      (compute_header_hmac c hk (header_prefix m (verifying_key_of c e) r s)) p = Inr tr"
  shows "\<exists>rs. run_encrypt c recip m args efd w =
    (Ok (), w3\<lparr>w_stdin := rs, w_stdout := w_stdout w3 @
       wire_message c m (verifying_key_of c e) r s hk pk p tr\<rparr>)"
proof -
  have r: "length r = 32" using recip by (rule parse_key_bytes_length)
  have s: "length s = 11" using salt by (rule length_os_random)
  have "m = 0x01 \<or> sender = None"
    using sender by (auto simp: sender_intake_def split: if_splits)
  from encrypt_stream_room [OF laws eph(3) r s keys(2) w3 p this tr] show ?thesis
    by (simp add: run_encrypt_def recip io_bind_def eph salt sender ikm keys(1) Let_def)
qed


subsection \<open>Properties\<close>

text \<open>
  C27. The re-hashing loop of the entropy hedging: it returns the first hash of the chain
  that is a valid scalar, and it returns at all exactly when the chain has one; it never
  returns the zero scalar or one the curve refuses.
\<close>

theorem hedging_returns_first_valid:
  "mix_entropy c os_entropy physical_entropy = Some y \<longleftrightarrow>
     (\<exists>n. y = entropy_chain c (tagged_hash c TAG_ENTROPY (os_entropy @ physical_entropy)) n \<and>
       \<not> bad_scalar c y \<and>
       (\<forall>i < n. bad_scalar c (entropy_chain c (tagged_hash c TAG_ENTROPY (os_entropy @ physical_entropy)) i)))"
  (is "_ \<longleftrightarrow> (\<exists>n. y = ?chain n \<and> _ \<and> _)")
proof
  assume "mix_entropy c os_entropy physical_entropy = Some y"
  then have r: "rehash c (tagged_hash c TAG_ENTROPY (os_entropy @ physical_entropy)) = Some y"
    by (simp add: mix_entropy_def)
  define n where "n = (LEAST n. \<not> bad_scalar c (?chain n))"
  from rehash_first [OF r] have ex: "\<exists>n. \<not> bad_scalar c (?chain n)" by blast
  have n: "\<not> bad_scalar c (?chain n)" unfolding n_def using ex by (rule LeastI_ex)
  have least: "\<forall>i < n. bad_scalar c (?chain i)" unfolding n_def using not_less_Least by blast
  from rehash_finds [OF least n] r have "y = ?chain n" by simp
  with n least show "\<exists>n. y = ?chain n \<and> \<not> bad_scalar c y \<and> (\<forall>i < n. bad_scalar c (?chain i))" by blast
next
  assume "\<exists>n. y = ?chain n \<and> \<not> bad_scalar c y \<and> (\<forall>i < n. bad_scalar c (?chain i))"
  then show "mix_entropy c os_entropy physical_entropy = Some y"
    by (auto simp: mix_entropy_def intro: rehash_finds)
qed

theorem hedging_returns_first_valid_witness:
  "mix_entropy demo [1] [2] = Some (tagged_hash demo TAG_ENTROPY [1, 2])"
proof -
  have "\<not> bad_scalar demo (tagged_hash demo TAG_ENTROPY [1, 2])" by code_simp
  then show ?thesis
    by (subst hedging_returns_first_valid) (intro exI [of _ 0], simp)
qed



end
