(* ===== verification/Spool.thy ===== *)
theory Spool
  imports Wire
begin

text \<open>
  \<open>rust/src/spool.rs\<close>: the \<open>StreamSpooler\<close>, which keeps a stream in memory up to 16 MiB and
  then in an encrypted temporary file, and releases it at the end. The record has the
  struct's fields; the temporary file is the bytes written to it. An operation takes the
  spooler and the world and returns both, also on an error, with its result.

  \<open>spool_holds\<close> is the abstraction: the spooler stands for one byte string. The locale
  \<open>sink\<close> is the interface \<open>run_decrypt\<close> and \<open>verify\<close> use (write pieces, then release them),
  with its contract; its interpretation discharges the contract for this spooler.
\<close>

definition MEMORY_SPOOL_LIMIT :: nat where "MEMORY_SPOOL_LIMIT = 16 * 1024 * 1024"
definition SPOOL_CHUNK_SIZE :: nat where "SPOOL_CHUNK_SIZE = 64 * 1024"
definition SPOOL_TAG_SIZE :: nat where "SPOOL_TAG_SIZE = 16"

lemma spool_chunk_pos [simp]: "0 < SPOOL_CHUNK_SIZE" "SPOOL_CHUNK_SIZE \<noteq> 0"
  by (simp_all add: SPOOL_CHUNK_SIZE_def)

record spooler =
  mem_buffer :: bytes
  disk_file :: "bytes option"
  spool_key :: bytes
  block_counter :: u64
  total_bytes :: u64
  max_size :: "u64 option"

type_synonym ('e, 'a) sp = "spooler \<Rightarrow> world \<Rightarrow> ('e + 'a) \<times> spooler \<times> world"

definition sp_bind :: "('e, 'a) sp \<Rightarrow> ('a \<Rightarrow> ('e, 'b) sp) \<Rightarrow> ('e, 'b) sp" where
  "sp_bind m f s w =
     (case m s w of (Inl e, s', w') \<Rightarrow> (Inl e, s', w') | (Inr x, s', w') \<Rightarrow> f x s' w')"

definition sp_return :: "'a \<Rightarrow> ('e, 'a) sp" where
  "sp_return x s w = (Inr x, s, w)"

definition sp_err :: "'e \<Rightarrow> ('e, 'a) sp" where
  "sp_err e s w = (Inl e, s, w)"

definition sp_map_err :: "('e \<Rightarrow> 'f) \<Rightarrow> ('e, 'a) sp \<Rightarrow> ('f, 'a) sp" where
  "sp_map_err g m s w =
     (case m s w of (Inl e, s', w') \<Rightarrow> (Inl (g e), s', w') | (Inr x, s', w') \<Rightarrow> (Inr x, s', w'))"

subsection \<open>Operations\<close>

text \<open>\<open>StreamSpooler::new\<close>\<close>

definition spooler_new :: "u64 option \<Rightarrow> spooler io" where
  "spooler_new limit =
     io_bind (os_random 32) (\<lambda>key.
     io_return \<lparr> mem_buffer = [], disk_file = None, spool_key = key, block_counter = 0,
                 total_bytes = 0, max_size = limit \<rparr>)"

definition nul_error :: io_error where
  "nul_error = Io_Error InvalidInput ''data provided contains a nul byte''"

text \<open>
  \<open>open_anonymous_tmpfile\<close>: an anonymous file in the temporary directory, or a named one that
  is unlinked at once. The new file is empty.
\<close>

definition open_anonymous_tmpfile :: "world \<Rightarrow> (io_error + bytes) \<times> world" where
  "open_anonymous_tmpfile w =
     (let tmp_dir = (case fst (env_var ''TMPDIR'' w) of Ok (Some d) \<Rightarrow> d | _ \<Rightarrow> ''/tmp'')
      in if contains tmp_dir [CHR 0x00] then (Inl nul_error, w)
         else if w_o_tmpfile w then (Inr [], w)
         else
           (let r = map (w_rng w) [w_rng_pos w ..< w_rng_pos w + 8];
                w1 = w\<lparr>w_rng_pos := w_rng_pos w + 8\<rparr>;
                tmp_path = tmp_dir @ ''/.pipe-k1_spool_'' @ show_nat (w_pid w) @ ''_'' @
                  show_nat (unat (from_be (rev r) :: u64))
            in case w_tmpfile w1 of
                 Some e \<Rightarrow> (Inl e, w1)
               | None \<Rightarrow>
                   (Inr [], if w_unlink_ok w1 then w1 else w1\<lparr>w_links := tmp_path # w_links w1\<rparr>)))"

definition build_spool_nonce :: "u64 \<Rightarrow> bytes" where
  "build_spool_nonce counter =
     (let nonce = replicate 12 0 in blit nonce 0 (be64 counter))"

definition build_spool_aad :: "u64 \<Rightarrow> u32 \<Rightarrow> bytes" where
  "build_spool_aad counter len =
     (let aad = replicate 12 0;
          aad = blit aad 0 (be64 counter)
      in blit aad 8 (be32 len))"

text \<open>\<open>file.write_all\<close> on the open temporary file; a full disk takes a part of the bytes.\<close>

definition file_write_all :: "bytes \<Rightarrow> (io_error, unit) sp" where
  "file_write_all bs s w =
     (let old = (case disk_file s of None \<Rightarrow> [] | Some f \<Rightarrow> f)
      in case w_disk_room w of
           None \<Rightarrow> (Inr (), s\<lparr>disk_file := Some (old @ bs)\<rparr>, w)
         | Some r \<Rightarrow>
             if length bs \<le> r
             then (Inr (), s\<lparr>disk_file := Some (old @ bs)\<rparr>, w\<lparr>w_disk_room := Some (r - length bs)\<rparr>)
             else (Inl (Io_Error OtherKind ''No space left on device (os error 28)''),
                   s\<lparr>disk_file := Some (old @ take r bs)\<rparr>, w\<lparr>w_disk_room := Some 0\<rparr>))"

definition ensure_disk_file :: "(io_error, unit) sp" where
  "ensure_disk_file s w =
     (case disk_file s of
        Some f \<Rightarrow> (Inr (), s, w)
      | None \<Rightarrow>
          (case open_anonymous_tmpfile w of
             (Inl e, w1) \<Rightarrow> (Inl e, s, w1)
           | (Inr f, w1) \<Rightarrow> (Inr (), s\<lparr>disk_file := Some f\<rparr>, w1)))"

definition flush_single_block_to_disk :: "crypto \<Rightarrow> bytes \<Rightarrow> (io_error, unit) sp" where
  "flush_single_block_to_disk c data =
     sp_bind ensure_disk_file (\<lambda>_ s.
       let nonce = build_spool_nonce (block_counter s);
           aad = build_spool_aad (block_counter s) (of_nat (length data))
       in (case aead_seal c (spool_key s) nonce aad data of
             Inl e \<Rightarrow> sp_err (Io_Error OtherKind (''Spool encrypt error: '' @ e))
           | Inr (ct, tag) \<Rightarrow>
               sp_bind (file_write_all (be32 (of_nat (length data)))) (\<lambda>_.
               sp_bind (file_write_all ct) (\<lambda>_.
               sp_bind (file_write_all tag) (\<lambda>_ s w.
               (Inr (), s\<lparr>block_counter := block_counter s + 1\<rparr>, w))))) s)"

fun flush_blocks :: "crypto \<Rightarrow> string \<Rightarrow> bytes list \<Rightarrow> (string, unit) sp" where
  "flush_blocks c msg [] = sp_return ()"
| "flush_blocks c msg (block # blocks) =
     sp_bind (sp_map_err (\<lambda>e. msg @ io_msg e) (flush_single_block_to_disk c block)) (\<lambda>_.
     flush_blocks c msg blocks)"

text \<open>Spilling takes the memory buffer out of the spooler and writes it in blocks.\<close>

definition spill :: "crypto \<Rightarrow> (string, unit) sp" where
  "spill c s =
     (if mem_buffer s \<noteq> [] then
        (let old_mem = mem_buffer s; s = s\<lparr>mem_buffer := []\<rparr>
         in flush_blocks c ''Spool spill error: '' (chunks SPOOL_CHUNK_SIZE old_mem) s)
      else sp_return () s)"

text \<open>\<open>write_chunk\<close>: count, check the ceiling, then keep in memory or go to disk.\<close>

definition store_chunk :: "crypto \<Rightarrow> bytes \<Rightarrow> (string, unit) sp" where
  "store_chunk c chunk s w =
     (if disk_file s = None \<and> length (mem_buffer s) + length chunk \<le> MEMORY_SPOOL_LIMIT
      then (Inr (), s\<lparr>mem_buffer := mem_buffer s @ chunk\<rparr>, w)
      else sp_bind (spill c) (\<lambda>_.
           flush_blocks c ''Spool disk write error: '' (chunks SPOOL_CHUNK_SIZE chunk)) s w)"

definition over_ceiling :: "spooler \<Rightarrow> bool" where
  "over_ceiling s = (case max_size s of Some limit \<Rightarrow> total_bytes s > limit | None \<Rightarrow> False)"

definition ceiling_message :: "spooler \<Rightarrow> string" where
  "ceiling_message s =
     ''Stream exceeded maximum allowed size ceiling ('' @
     (case max_size s of Some limit \<Rightarrow> show_nat (unat limit) | None \<Rightarrow> []) @ '' bytes)''"

definition write_chunk :: "crypto \<Rightarrow> bytes \<Rightarrow> (string, unit) sp" where
  "write_chunk c chunk s w =
     (let s = s\<lparr>total_bytes := total_bytes s + of_nat (length chunk)\<rparr>
      in if over_ceiling s then sp_err (ceiling_message s) s w
         else store_chunk c chunk s w)"

text \<open>
  \<open>release_to\<close> on standard output: \<open>n\<close> blocks from index \<open>block_idx\<close> on, read back, checked,
  decrypted and written one by one.
\<close>

definition framing_error :: io_error where
  "framing_error = Io_Error InvalidData ''Invalid spool block framing header''"

definition tampering_error :: io_error where
  "tampering_error = Io_Error InvalidData ''Spool disk tampering detected''"

fun release_blocks :: "crypto \<Rightarrow> bytes \<Rightarrow> nat \<Rightarrow> u64 \<Rightarrow> reader \<Rightarrow> (io_error + unit) io" where
  "release_blocks c key 0 block_idx file = stdout_flush"
| "release_blocks c key (Suc n) block_idx file =
     (case read_exact 4 file of
        (Inl e, _) \<Rightarrow> io_return (Inl e)
      | (Inr len_bytes, file1) \<Rightarrow>
          let len = unat (from_be len_bytes :: u32)
          in if len > SPOOL_CHUNK_SIZE \<or> len = 0 then io_return (Inl framing_error)
             else (case read_exact len file1 of
               (Inl e, _) \<Rightarrow> io_return (Inl e)
             | (Inr ct, file2) \<Rightarrow>
                 (case read_exact SPOOL_TAG_SIZE file2 of
                    (Inl e, _) \<Rightarrow> io_return (Inl e)
                  | (Inr tag_bytes, file3) \<Rightarrow>
                      let nonce = build_spool_nonce block_idx;
                          aad = build_spool_aad block_idx (of_nat len)
                      in (case aead_open c key nonce aad ct tag_bytes of
                            Inl e \<Rightarrow> io_return (Inl tampering_error)
                          | Inr pt \<Rightarrow>
                              io_bind (stdout_write_all pt) (\<lambda>r.
                              case r of
                                Inl e \<Rightarrow> io_return (Inl e)
                              | Inr _ \<Rightarrow> release_blocks c key n (block_idx + 1) file3)))))"

definition release_to :: "crypto \<Rightarrow> spooler \<Rightarrow> (io_error + unit) io" where
  "release_to c s =
     (case disk_file s of
        Some content \<Rightarrow>
          io_bind (io_get w_seek) (\<lambda>seek.
          case seek of
            Some e \<Rightarrow> io_return (Inl e)
          | None \<Rightarrow>
              io_bind (io_get (\<lambda>w. w_disk_view w content)) (\<lambda>file.
              release_blocks c (spool_key s) (unat (block_counter s)) 0 file))
      | None \<Rightarrow>
          io_bind (stdout_write_all (mem_buffer s)) (\<lambda>r.
          case r of Inl e \<Rightarrow> io_return (Inl e) | Inr _ \<Rightarrow> stdout_flush))"

text \<open>\<open>Drop\<close>: the key and the buffer are wiped and the descriptor closed.\<close>

definition spooler_drop :: "spooler \<Rightarrow> spooler" where
  "spooler_drop s =
     s\<lparr>spool_key := replicate (length (spool_key s)) 0, mem_buffer := [], disk_file := None\<rparr>"

subsection \<open>Layout and nonces\<close>

lemma build_spool_nonce_layout: "build_spool_nonce i = be64 i @ [0, 0, 0, 0]"
  by (simp add: build_spool_nonce_def blit_def eval_nat_numeral Let_def)

lemma build_spool_aad_layout: "build_spool_aad i l = be64 i @ be32 l"
  by (simp add: build_spool_aad_def blit_def Let_def)

interpretation spool_nonce: counter_nonce "\<lambda>i (u :: unit). build_spool_nonce i"
  by unfold_locales (simp_all add: build_spool_nonce_layout be64_append_inject)

text \<open>
  A block on disk, and the blocks of a file: length, ciphertext and tag, sealed under the
  block's index. This is the format the specification's section 3.2 gives.
\<close>

definition spool_frame :: "crypto \<Rightarrow> bytes \<Rightarrow> u64 \<Rightarrow> bytes \<Rightarrow> bytes" where
  "spool_frame c key i b =
     (case aead_seal c key (build_spool_nonce i) (build_spool_aad i (of_nat (length b))) b of
        Inl e \<Rightarrow> []
      | Inr (ct, tag) \<Rightarrow> be32 (of_nat (length b)) @ ct @ tag)"

fun spool_frames :: "crypto \<Rightarrow> bytes \<Rightarrow> u64 \<Rightarrow> bytes list \<Rightarrow> bytes" where
  "spool_frames c key i [] = []"
| "spool_frames c key i (b # bs) = spool_frame c key i b @ spool_frames c key (i + 1) bs"

lemma spool_frames_append:
  "spool_frames c key i (as @ bs) =
     spool_frames c key i as @ spool_frames c key (i + of_nat (length as)) bs"
  by (induction as arbitrary: i) (simp_all add: algebra_simps)

definition on_disk :: "spooler \<Rightarrow> bytes" where
  "on_disk s = (case disk_file s of None \<Rightarrow> [] | Some f \<Rightarrow> f)"

subsection \<open>What an operation can change\<close>

text \<open>The spool's operations touch the disk, the random source and nothing else.\<close>

definition off_disk :: "world \<Rightarrow> world" where
  "off_disk w = w\<lparr>w_rng_pos := 0, w_links := [], w_disk_room := None\<rparr>"

definition disk_step :: "world \<Rightarrow> world \<Rightarrow> bool" where
  "disk_step w w' \<longleftrightarrow> off_disk w' = off_disk w"

lemma disk_step_refl [simp]: "disk_step w w"
  by (simp add: disk_step_def)

lemma disk_step_trans: "disk_step u v \<Longrightarrow> disk_step v w \<Longrightarrow> disk_step u w"
  by (simp add: disk_step_def)

lemma disk_step_updates [simp]:
  "disk_step w (w\<lparr>w_disk_room := d\<rparr>)"
  "disk_step w (w\<lparr>w_rng_pos := i\<rparr>)"
  "disk_step w (w\<lparr>w_rng_pos := i, w_links := ls\<rparr>)"
  by (simp_all add: disk_step_def off_disk_def)

lemma disk_step_keeps:
  assumes "disk_step w w'" and "\<And>x. f (off_disk x) = f x"
  shows "f w' = f w"
  using assms unfolding disk_step_def by metis

lemma disk_step_fields:
  assumes "disk_step w w'"
  shows "w_stdout w' = w_stdout w" "w_stdin w' = w_stdin w" "w_stderr w' = w_stderr w"
    "w_room w' = w_room w" "w_flush_err w' = w_flush_err w" "w_seek w' = w_seek w"
    "w_disk_view w' = w_disk_view w" "w_closed w' = w_closed w" "w_environ w' = w_environ w"
    "w_tmpfile w' = w_tmpfile w"
  by (rule disk_step_keeps [OF assms], simp add: off_disk_def)+

definition sp_local :: "('e, 'a) sp \<Rightarrow> bool" where
  "sp_local m \<longleftrightarrow>
     (\<forall>s w r s' w'. m s w = (r, s', w') \<longrightarrow>
        disk_step w w' \<and> spool_key s' = spool_key s \<and> max_size s' = max_size s \<and>
        total_bytes s' = total_bytes s)"

lemma sp_localI:
  "(\<And>s w r s' w'. m s w = (r, s', w') \<Longrightarrow>
     disk_step w w' \<and> spool_key s' = spool_key s \<and> max_size s' = max_size s \<and>
     total_bytes s' = total_bytes s) \<Longrightarrow> sp_local m"
  by (simp add: sp_local_def)

lemma sp_local_bind:
  "sp_local m \<Longrightarrow> (\<And>x. sp_local (f x)) \<Longrightarrow> sp_local (sp_bind m f)"
  unfolding sp_local_def sp_bind_def
  by (auto split: prod.splits sum.splits) (metis disk_step_trans)+

lemma sp_local_return: "sp_local (sp_return x)"
  by (simp add: sp_local_def sp_return_def)

lemma sp_local_err: "sp_local (sp_err e)"
  by (simp add: sp_local_def sp_err_def)

lemma sp_local_map_err: "sp_local m \<Longrightarrow> sp_local (sp_map_err g m)"
  unfolding sp_local_def sp_map_err_def
  by (auto split: prod.splits sum.splits)

lemma file_write_local: "sp_local (file_write_all bs)"
  by (rule sp_localI)
    (auto simp: file_write_all_def Let_def split: option.splits if_splits)

lemma open_tmpfile_step: "open_anonymous_tmpfile w = (r, w') \<Longrightarrow> disk_step w w'"
  unfolding open_anonymous_tmpfile_def Let_def
  by (auto split: if_splits option.splits simp del: append.simps)

lemma open_tmpfile_empty: "open_anonymous_tmpfile w = (Inr f, w') \<Longrightarrow> f = []"
  by (auto simp: open_anonymous_tmpfile_def Let_def split: if_splits option.splits)

lemma ensure_disk_local: "sp_local ensure_disk_file"
  by (rule sp_localI)
    (auto simp: ensure_disk_file_def split: option.splits prod.splits sum.splits
      dest: open_tmpfile_step)

lemma sp_local_reader: "(\<And>s0. sp_local (m s0)) \<Longrightarrow> sp_local (\<lambda>s. m s s)"
  unfolding sp_local_def by blast

lemma sp_local_count: "sp_local (\<lambda>s w. (Inr (), s\<lparr>block_counter := f s\<rparr>, w))"
  by (simp add: sp_local_def)

lemmas sp_local_rules = sp_local_bind sp_local_return sp_local_err sp_local_map_err
  file_write_local ensure_disk_local sp_local_count

lemma flush_single_local: "sp_local (flush_single_block_to_disk c data)"
proof -
  have inner: "sp_local (case x of Inl e \<Rightarrow> sp_err (f e) | Inr (ct, tag) \<Rightarrow>
      sp_bind (file_write_all h) (\<lambda>_. sp_bind (file_write_all ct) (\<lambda>_.
      sp_bind (file_write_all tag) (\<lambda>_ s w. (Inr (), s\<lparr>block_counter := block_counter s + 1\<rparr>, w)))))"
    for x :: "string + bytes \<times> bytes" and f h
    by (cases x) (auto intro!: sp_local_rules)
  show ?thesis
    unfolding flush_single_block_to_disk_def Let_def
    by (rule sp_local_bind [OF ensure_disk_local], rule sp_localI)
      (erule inner [unfolded sp_local_def, rule_format])
qed

lemma flush_blocks_local: "sp_local (flush_blocks c msg bs)"
  by (induction bs) (auto intro!: sp_local_rules flush_single_local)

subsection \<open>What a successful operation does\<close>

lemma sp_bind_InrE:
  assumes "sp_bind m f s w = (Inr y, s'', w'')"
  obtains x s' w' where "m s w = (Inr x, s', w')" and "f x s' w' = (Inr y, s'', w'')"
  using assms by (auto simp: sp_bind_def split: prod.splits sum.splits)

lemma sp_map_err_InrE:
  assumes "sp_map_err g m s w = (Inr y, s', w')"
  obtains "m s w = (Inr y, s', w')"
  using assms by (auto simp: sp_map_err_def split: prod.splits sum.splits)

lemma file_write_Inr:
  "file_write_all bs s w = (Inr u, s', w') \<Longrightarrow> s' = s\<lparr>disk_file := Some (on_disk s @ bs)\<rparr>"
  by (auto simp: file_write_all_def on_disk_def Let_def split: option.splits if_splits)

lemma ensure_disk_Inr:
  "ensure_disk_file s w = (Inr u, s', w') \<Longrightarrow> s' = s\<lparr>disk_file := Some (on_disk s)\<rparr>"
  by (auto simp: ensure_disk_file_def on_disk_def dest: open_tmpfile_empty
      split: option.splits prod.splits sum.splits)

lemma on_disk_update [simp]:
  "on_disk (s\<lparr>disk_file := Some f\<rparr>) = f"
  "on_disk (s\<lparr>block_counter := i\<rparr>) = on_disk s"
  "on_disk (s\<lparr>disk_file := Some f, block_counter := i\<rparr>) = f"
  by (simp_all add: on_disk_def)

lemma flush_single_Inr:
  assumes "flush_single_block_to_disk c data s w = (Inr u, s', w')"
  shows "s' = s\<lparr>disk_file := Some (on_disk s @ spool_frame c (spool_key s) (block_counter s) data),
                block_counter := block_counter s + 1\<rparr>"
  using assms unfolding flush_single_block_to_disk_def Let_def
  by (auto elim!: sp_bind_InrE dest!: file_write_Inr ensure_disk_Inr
      simp: spool_frame_def sp_err_def split: sum.splits prod.splits)

lemma flush_blocks_Inr:
  "flush_blocks c msg bs s w = (Inr u, s', w') \<Longrightarrow>
     s' = s\<lparr>disk_file := (if bs = [] then disk_file s
                 else Some (on_disk s @ spool_frames c (spool_key s) (block_counter s) bs)),
            block_counter := block_counter s + of_nat (length bs)\<rparr>"
proof (induction bs arbitrary: s w)
  case Nil
  then show ?case by (simp add: sp_return_def)
next
  case (Cons b bs)
  from Cons.prems obtain s1 w1 where
    "flush_single_block_to_disk c b s w = (Inr (), s1, w1)"
    and rest: "flush_blocks c msg bs s1 w1 = (Inr u, s', w')"
    by (auto elim!: sp_bind_InrE sp_map_err_InrE)
  note s1 = flush_single_Inr [OF this(1)]
  from Cons.IH [OF rest] show ?case
    by (cases "bs = []") (simp_all add: s1 algebra_simps)
qed

text \<open>On a faithful disk the operations succeed.\<close>

lemma file_write_faithful:
  "w_disk_room w = None \<Longrightarrow> \<exists>s'. file_write_all bs s w = (Inr (), s', w)"
  by (simp add: file_write_all_def Let_def)

lemma env_var_cases:
  obtains "fst (env_var k w) = Ok None"
  | v where "fst (env_var k w) = Ok (Some v)" and "env_lookup k (w_environ w) = Some v"
proof (cases "env_lookup k (w_environ w)")
  case (Some v)
  with that show ?thesis by (cases "utf8_valid (str_bytes v)") (auto simp: env_var_def)
qed (simp add: env_var_def)

lemma open_tmpfile_faithful:
  assumes "faithful w"
  shows "\<exists>w'. open_anonymous_tmpfile w = (Inr [], w') \<and> faithful w'"
proof -
  define d where "d = (case fst (env_var ''TMPDIR'' w) of Ok (Some d) \<Rightarrow> d | _ \<Rightarrow> ''/tmp'')"
  have nul: "\<not> contains d [CHR 0x00]"
    using assms by (cases rule: env_var_cases [of "''TMPDIR''" w]) (auto simp: d_def faithful_def)
  have tmp: "w_tmpfile w = None" using assms by (simp add: faithful_def)
  show ?thesis
    unfolding open_anonymous_tmpfile_def d_def [symmetric] Let_def
    using assms nul tmp by (cases "w_unlink_ok w") (simp_all del: append.simps)
qed

lemma ensure_disk_faithful:
  "faithful w \<Longrightarrow> \<exists>s' w'. ensure_disk_file s w = (Inr (), s', w') \<and> faithful w'"
  using open_tmpfile_faithful [of w]
  by (auto simp: ensure_disk_file_def split: option.splits)

lemma flush_single_faithful:
  assumes "faithful w" and "aead_laws c" and "length (spool_key s) = 32" and "length data \<le> 2 ^ 32"
  shows "\<exists>s' w'. flush_single_block_to_disk c data s w = (Inr (), s', w') \<and> faithful w'"
proof -
  obtain s1 w1 where en: "ensure_disk_file s w = (Inr (), s1, w1)" and w1: "faithful w1"
    using ensure_disk_faithful assms(1) by blast
  have key: "spool_key s1 = spool_key s" using ensure_disk_Inr [OF en] by simp
  have "w_disk_room w1 = None" using w1 by (simp add: faithful_def)
  moreover obtain ct tag where
    "aead_seal c (spool_key s1) (build_spool_nonce (block_counter s1))
       (build_spool_aad (block_counter s1) (of_nat (length data))) data = Inr (ct, tag)"
    using aead_seal_ok [OF assms(2) _ spool_nonce.nonce_length assms(4)] assms(3) key by metis
  ultimately show ?thesis
    using en w1
    by (simp add: flush_single_block_to_disk_def sp_bind_def file_write_all_def Let_def)
qed

lemma flush_blocks_faithful:
  "faithful w \<Longrightarrow> aead_laws c \<Longrightarrow> length (spool_key s) = 32 \<Longrightarrow> \<forall>b \<in> set bs. length b \<le> 2 ^ 32 \<Longrightarrow>
     \<exists>s' w'. flush_blocks c msg bs s w = (Inr (), s', w') \<and> faithful w'"
proof (induction bs arbitrary: s w)
  case Nil
  then show ?case by (simp add: sp_return_def)
next
  case (Cons b bs)
  then obtain s1 w1 where one: "flush_single_block_to_disk c b s w = (Inr (), s1, w1)" "faithful w1"
    using flush_single_faithful [of w c s b] by auto
  have "length (spool_key s1) = 32" using flush_single_Inr [OF one(1)] Cons.prems(3) by simp
  with Cons one show ?case by (simp add: sp_bind_def sp_map_err_def)
qed

subsection \<open>The abstraction: a spooler holds a byte string\<close>

definition spool_holds :: "crypto \<Rightarrow> spooler \<Rightarrow> bytes \<Rightarrow> bool" where
  "spool_holds c s p \<longleftrightarrow>
     length (spool_key s) = 32 \<and>
     (case disk_file s of
        None \<Rightarrow> mem_buffer s = p \<and> block_counter s = 0 \<and> length p \<le> MEMORY_SPOOL_LIMIT
      | Some f \<Rightarrow>
          mem_buffer s = [] \<and>
          (\<exists>bs. f = spool_frames c (spool_key s) 0 bs \<and> p = concat bs \<and>
                block_counter s = of_nat (length bs) \<and>
                (\<forall>b \<in> set bs. b \<noteq> [] \<and> length b \<le> SPOOL_CHUNK_SIZE)))"

lemma spool_holds_diskI:
  assumes "length (spool_key s) = 32" and "mem_buffer s = []"
    and "disk_file s = Some (spool_frames c (spool_key s) 0 bs)" and "p = concat bs"
    and "block_counter s = of_nat (length bs)"
    and "\<forall>b \<in> set bs. b \<noteq> [] \<and> length b \<le> SPOOL_CHUNK_SIZE"
  shows "spool_holds c s p"
  using assms unfolding spool_holds_def by (auto intro!: exI [of _ bs])

lemma spooler_new_holds:
  "spooler_new limit w = (Ok s, w') \<Longrightarrow> spool_holds c s []"
  by (auto simp: spooler_new_def spool_holds_def length_os_random elim!: io_bind_OkE)

text \<open>Flushing blocks appends them, from memory-free states with or without a file.\<close>

lemma flush_blocks_holds:
  assumes "flush_blocks c msg (chunks SPOOL_CHUNK_SIZE d) s w = (Inr u, s', w')"
    and "spool_holds c s p" and "mem_buffer s = []" and "disk_file s = None \<Longrightarrow> p = []"
  shows "spool_holds c s' (p @ d) \<and> mem_buffer s' = [] \<and> (d \<noteq> [] \<longrightarrow> disk_file s' \<noteq> None)"
proof (cases "d = []")
  case True
  with flush_blocks_Inr [OF assms(1)] assms(2,3) show ?thesis
    by (simp add: spool_holds_def)
next
  case False
  obtain bs where bs: "on_disk s = spool_frames c (spool_key s) 0 bs" "p = concat bs"
    "block_counter s = of_nat (length bs)" "\<forall>b \<in> set bs. b \<noteq> [] \<and> length b \<le> SPOOL_CHUNK_SIZE"
  proof (cases "disk_file s")
    case None
    with assms(2,4) show ?thesis
      by (intro that [of "[]"]) (simp_all add: spool_holds_def on_disk_def)
  next
    case (Some f)
    with assms(2) show ?thesis by (auto simp: spool_holds_def on_disk_def intro: that)
  qed
  define cs where "cs = chunks SPOOL_CHUNK_SIZE d"
  have cs: "cs \<noteq> []" "concat cs = d" using False by (simp_all add: cs_def)
  have small: "\<forall>b \<in> set (bs @ cs). b \<noteq> [] \<and> length b \<le> SPOOL_CHUNK_SIZE"
    using bs(4) chunks_nonempty [OF spool_chunk_pos(1)] by (auto simp: cs_def)
  have s': "s' = s\<lparr>disk_file := Some (spool_frames c (spool_key s) 0 (bs @ cs)),
      block_counter := of_nat (length (bs @ cs))\<rparr>"
    using flush_blocks_Inr [OF assms(1) [folded cs_def]] bs(1,3) cs(1)
    by (simp add: spool_frames_append)
  have "length (spool_key s) = 32" using assms(2) by (simp add: spool_holds_def)
  with small have "spool_holds c s' (p @ d)"
    using assms(3) bs(2) cs(2) unfolding s'
    by (intro spool_holds_diskI [of _ c "bs @ cs"]) simp_all
  with s' assms(3) show ?thesis by simp
qed

lemma spill_holds:
  assumes "spill c s w = (Inr u, s', w')" and "spool_holds c s p"
  shows "spool_holds c s' p \<and> mem_buffer s' = [] \<and> (disk_file s' = None \<longrightarrow> p = [])"
proof (cases "mem_buffer s = []")
  case True
  with assms show ?thesis
    by (auto simp: spill_def sp_return_def spool_holds_def split: option.splits)
next
  case False
  with assms(2) have none: "disk_file s = None" "mem_buffer s = p" "p \<noteq> []"
    by (auto simp: spool_holds_def split: option.splits)
  have "spool_holds c (s\<lparr>mem_buffer := []\<rparr>) []"
    using assms(2) none by (simp add: spool_holds_def)
  moreover have "flush_blocks c ''Spool spill error: '' (chunks SPOOL_CHUNK_SIZE p)
      (s\<lparr>mem_buffer := []\<rparr>) w = (Inr u, s', w')"
    using assms(1) none by (simp add: spill_def Let_def)
  ultimately show ?thesis
    using flush_blocks_holds [of c _ p "s\<lparr>mem_buffer := []\<rparr>" w u s' w' "[]"] none by auto
qed

lemma spool_holds_count [simp]: "spool_holds c (s\<lparr>total_bytes := n\<rparr>) p = spool_holds c s p"
  by (cases "disk_file s") (simp_all add: spool_holds_def)

lemma write_chunk_holds:
  assumes "spool_holds c s p" and "write_chunk c d s w = (Inr u, s', w')"
  shows "spool_holds c s' (p @ d)"
proof -
  define t where "t = s\<lparr>total_bytes := total_bytes s + of_nat (length d)\<rparr>"
  have holds: "spool_holds c t p" using assms(1) by (simp add: t_def)
  have store: "store_chunk c d t w = (Inr u, s', w')"
    using assms(2) by (simp add: write_chunk_def Let_def sp_err_def t_def split: if_splits)
  show ?thesis
  proof (cases "disk_file t = None \<and> length (mem_buffer t) + length d \<le> MEMORY_SPOOL_LIMIT")
    case True
    with store holds show ?thesis by (auto simp: store_chunk_def spool_holds_def)
  next
    case False
    then have "store_chunk c d t w = sp_bind (spill c) (\<lambda>_. flush_blocks c
        ''Spool disk write error: '' (chunks SPOOL_CHUNK_SIZE d)) t w"
      by (simp only: store_chunk_def if_False)
    with store obtain s1 w1 where sp: "spill c t w = (Inr (), s1, w1)"
      and fl: "flush_blocks c ''Spool disk write error: '' (chunks SPOOL_CHUNK_SIZE d) s1 w1 = (Inr u, s', w')"
      by (auto elim!: sp_bind_InrE)
    have s1: "spool_holds c s1 p" "mem_buffer s1 = []" "disk_file s1 = None \<Longrightarrow> p = []"
      using spill_holds [OF sp holds] by auto
    from flush_blocks_holds [OF fl s1] show ?thesis by (rule conjunct1)
  qed
qed

lemma spill_local: "sp_local (spill c)"
  unfolding sp_local_def spill_def Let_def
  using flush_blocks_local [unfolded sp_local_def, rule_format]
  by (auto simp: sp_return_def split: if_splits)

lemma store_chunk_local: "sp_local (store_chunk c d)"
proof -
  have "sp_local (sp_bind (spill c) (\<lambda>_. flush_blocks c msg bs))" for msg bs
    by (intro sp_local_bind spill_local flush_blocks_local)
  note loc = this [unfolded sp_local_def, rule_format]
  show ?thesis
    unfolding sp_local_def store_chunk_def by (auto split: if_splits dest: loc)
qed

lemma write_chunk_step:
  assumes "write_chunk c d s w = (r, s', w')"
  shows "disk_step w w'" and "spool_key s' = spool_key s" and "max_size s' = max_size s"
  using assms store_chunk_local [of c d, unfolded sp_local_def, rule_format]
  by (fastforce simp: write_chunk_def Let_def sp_err_def split: if_splits)+

text \<open>A write that succeeds has counted its bytes and is within the ceiling.\<close>

lemma write_chunk_total:
  assumes "write_chunk c d s w = (Inr u, s', w')"
  shows "total_bytes s' = total_bytes s + of_nat (length d) \<and> \<not> over_ceiling s'"
proof -
  define t where "t = s\<lparr>total_bytes := total_bytes s + of_nat (length d)\<rparr>"
  have "\<not> over_ceiling t" "store_chunk c d t w = (Inr u, s', w')"
    using assms by (simp_all add: write_chunk_def Let_def sp_err_def t_def split: if_splits)
  with store_chunk_local [of c d, unfolded sp_local_def, rule_format, OF this(2)] show ?thesis
    by (simp add: over_ceiling_def t_def split: option.splits)
qed

subsection \<open>Release\<close>

lemma spool_frame_sealed:
  assumes "aead_laws c" and "length key = 32" and "length b \<le> SPOOL_CHUNK_SIZE"
  obtains ct tag where "spool_frame c key i b = be32 (of_nat (length b)) @ ct @ tag"
    and "length ct = length b" and "length tag = SPOOL_TAG_SIZE"
    and "aead_open c key (build_spool_nonce i) (build_spool_aad i (of_nat (length b))) ct tag = Inr b"
proof -
  have "length b \<le> 2 ^ 32" using assms(3) by (simp add: SPOOL_CHUNK_SIZE_def)
  then obtain ct tag where
    "aead_seal c key (build_spool_nonce i) (build_spool_aad i (of_nat (length b))) b = Inr (ct, tag)"
    "length ct = length b" "length tag = 16"
    "aead_open c key (build_spool_nonce i) (build_spool_aad i (of_nat (length b))) ct tag = Inr b"
    using aead_seal_ok [OF assms(1,2) spool_nonce.nonce_length] by metis
  with that show ?thesis by (simp add: spool_frame_def SPOOL_TAG_SIZE_def)
qed

lemma unat_of_nat_block: "n \<le> SPOOL_CHUNK_SIZE \<Longrightarrow> unat (of_nat n :: u32) = n"
  by (simp add: unat_of_nat SPOOL_CHUNK_SIZE_def)

text \<open>Reading a sealed block back opens it and goes on with the rest of the file.\<close>

lemma release_block_step:
  assumes "aead_laws c" and "length key = 32" and b: "b \<noteq> []" "length b \<le> SPOOL_CHUNK_SIZE"
    and "live rs" and "rd_bytes rs = spool_frame c key i b @ rest"
  obtains rs3 where "rd_bytes rs3 = rest" and "live rs3"
    and "release_blocks c key (Suc n) i rs w =
      io_bind (stdout_write_all b) (\<lambda>r.
        case r of Inl e \<Rightarrow> io_return (Inl e) | Inr _ \<Rightarrow> release_blocks c key n (i + 1) rs3) w"
proof -
  obtain ct tag where fr: "spool_frame c key i b = be32 (of_nat (length b)) @ ct @ tag"
    "length ct = length b" "length tag = SPOOL_TAG_SIZE"
    "aead_open c key (build_spool_nonce i) (build_spool_aad i (of_nat (length b))) ct tag = Inr b"
    using spool_frame_sealed [OF assms(1,2) b(2)] by metis
  have bytes: "rd_bytes rs = be32 (of_nat (length b)) @ ct @ tag @ rest"
    using assms(6) fr(1) by simp
  obtain rs1 where r1: "read_exact 4 rs = (Inr (be32 (of_nat (length b))), rs1)"
    "rd_bytes rs1 = ct @ tag @ rest" "live rs1"
    using read_exact_live [OF assms(5), of 4] bytes by auto
  obtain rs2 where r2: "read_exact (length b) rs1 = (Inr ct, rs2)"
    "rd_bytes rs2 = tag @ rest" "live rs2"
    using read_exact_live [OF r1(3), of "length b"] r1(2) fr(2) by auto
  obtain rs3 where r3: "read_exact SPOOL_TAG_SIZE rs2 = (Inr tag, rs3)"
    "rd_bytes rs3 = rest" "live rs3"
    using read_exact_live [OF r2(3), of SPOOL_TAG_SIZE] r2(2) fr(3) by auto
  have len: "\<not> (SPOOL_CHUNK_SIZE < length b \<or> length b = 0)" using b by simp
  show ?thesis
    by (rule that [OF r3(2,3)])
      (use r1(1) r2(1) r3(1) fr(4) len in \<open>simp add: unat_of_nat_block [OF b(2)] Let_def\<close>)
qed

text \<open>Releasing a file of sealed blocks writes the blocks, on any live reader of the file.\<close>

lemma release_blocks_frames:
  assumes "aead_laws c" and "length key = 32"
  shows "live rs \<Longrightarrow> rd_bytes rs = spool_frames c key i bs \<Longrightarrow>
     \<forall>b \<in> set bs. b \<noteq> [] \<and> length b \<le> SPOOL_CHUNK_SIZE \<Longrightarrow>
     w_room w = None \<Longrightarrow> w_flush_err w = None \<Longrightarrow>
     release_blocks c key (length bs) i rs w =
       (Ok (Inr ()), w\<lparr>w_stdout := w_stdout w @ concat bs\<rparr>)"
proof (induction bs arbitrary: i rs w)
  case Nil
  then show ?case by (simp add: stdout_flush_def)
next
  case (Cons b bs)
  then have b: "b \<noteq> []" "length b \<le> SPOOL_CHUNK_SIZE"
    "rd_bytes rs = spool_frame c key i b @ spool_frames c key (i + 1) bs" by simp_all
  obtain rs3 where r3: "rd_bytes rs3 = spool_frames c key (i + 1) bs" "live rs3"
    and step: "release_blocks c key (Suc (length bs)) i rs w = io_bind (stdout_write_all b) (\<lambda>r.
        case r of Inl e \<Rightarrow> io_return (Inl e) | Inr _ \<Rightarrow> release_blocks c key (length bs) (i + 1) rs3) w"
    by (rule release_block_step [OF assms b(1,2) Cons.prems(1) b(3)])
  show ?case
    using step Cons.IH [OF r3(2,1)] Cons.prems(3-5)
    by (simp add: io_bind_def stdout_write_all_room)
qed

text \<open>Whatever becomes of standard output on the way, only a prefix of the blocks is written.\<close>

lemma stdout_write_all_prefix:
  assumes "stdout_write_all bs w = (r, w')"
  shows "\<exists>d z. w_stdout w' = w_stdout w @ d \<and> bs = d @ z \<and> (r = Ok (Inr ()) \<longrightarrow> z = [])"
proof (cases "w_room w")
  case None
  with assms show ?thesis by (intro exI [of _ bs] exI [of _ "[]"]) (auto simp: stdout_write_all_def)
next
  case (Some n)
  with assms show ?thesis
    by (intro exI [of _ "take n bs"] exI [of _ "drop n bs"])
      (auto simp: stdout_write_all_def split: if_splits)
qed

lemma release_blocks_prefix:
  assumes "aead_laws c" and "length key = 32"
  shows "live rs \<Longrightarrow> rd_bytes rs = spool_frames c key i bs \<Longrightarrow>
     \<forall>b \<in> set bs. b \<noteq> [] \<and> length b \<le> SPOOL_CHUNK_SIZE \<Longrightarrow>
     release_blocks c key (length bs) i rs w = (r, w') \<Longrightarrow>
     \<exists>d z. w_stdout w' = w_stdout w @ d \<and> concat bs = d @ z \<and> (r = Ok (Inr ()) \<longrightarrow> z = [])"
proof (induction bs arbitrary: i rs w)
  case Nil
  then show ?case by (auto simp: stdout_flush_def split: option.splits)
next
  case (Cons b bs)
  then have b: "b \<noteq> []" "length b \<le> SPOOL_CHUNK_SIZE"
    "rd_bytes rs = spool_frame c key i b @ spool_frames c key (i + 1) bs" by simp_all
  obtain rs3 where r3: "rd_bytes rs3 = spool_frames c key (i + 1) bs" "live rs3"
    and step: "release_blocks c key (Suc (length bs)) i rs w = io_bind (stdout_write_all b) (\<lambda>r.
        case r of Inl e \<Rightarrow> io_return (Inl e) | Inr _ \<Rightarrow> release_blocks c key (length bs) (i + 1) rs3) w"
    by (rule release_block_step [OF assms b(1,2) Cons.prems(1) b(3)])
  obtain q w1 where wr: "stdout_write_all b w = (q, w1)" by fastforce
  obtain d z where d: "w_stdout w1 = w_stdout w @ d" "b = d @ z" "q = Ok (Inr ()) \<longrightarrow> z = []"
    using stdout_write_all_prefix [OF wr] by blast
  show ?case
  proof (cases "q = Ok (Inr ())")
    case True
    with step wr Cons.prems(4) have "release_blocks c key (length bs) (i + 1) rs3 w1 = (r, w')"
      by (simp add: io_bind_def)
    from Cons.IH [OF r3(2,1) _ this] Cons.prems(3) obtain d' z' where
      "w_stdout w' = w_stdout w1 @ d'" "concat bs = d' @ z'" "r = Ok (Inr ()) \<longrightarrow> z' = []" by auto
    with d True show ?thesis by (intro exI [of _ "d @ d'"] exI [of _ z']) simp
  next
    case False
    with step wr Cons.prems(4) have "w' = w1" "r \<noteq> Ok (Inr ())"
      by (auto simp: io_bind_def split: res.splits sum.splits)
    with d show ?thesis by (intro exI [of _ d] exI [of _ "z @ concat bs"]) simp
  qed
qed

text \<open>
  Conversely, whatever the disk returns, a release that succeeds has written blocks whose
  sealed frames are exactly what was read: a changed byte is an error or a forgery.
\<close>

lemma release_blocks_sound:
  assumes "aead_laws c"
  shows "release_blocks c key n i rs w = (Ok (Inr u), w') \<Longrightarrow>
     \<exists>bs rest. length bs = n \<and> rd_bytes rs = spool_frames c key i bs @ rest \<and>
       w_stdout w' = w_stdout w @ concat bs \<and> (\<forall>b \<in> set bs. b \<noteq> [] \<and> length b \<le> SPOOL_CHUNK_SIZE)"
proof (induction n arbitrary: i rs w)
  case 0
  then show ?case
    by (auto simp: stdout_flush_def split: option.splits)
next
  case (Suc n)
  from Suc.prems obtain lb rs1 where r1: "read_exact 4 rs = (Inr lb, rs1)"
    by (auto split: prod.splits sum.splits)
  define len where "len = unat (from_be lb :: u32)"
  from Suc.prems r1 have len: "len \<le> SPOOL_CHUNK_SIZE" "len \<noteq> 0"
    by (auto simp: len_def Let_def split: if_splits)
  with Suc.prems r1 obtain ct rs2 where r2: "read_exact len rs1 = (Inr ct, rs2)"
    by (auto simp: len_def [symmetric] split: prod.splits sum.splits)
  with Suc.prems r1 len obtain tag rs3 where r3: "read_exact SPOOL_TAG_SIZE rs2 = (Inr tag, rs3)"
    by (auto simp: len_def [symmetric] split: prod.splits sum.splits)
  with Suc.prems r1 r2 len obtain pt where
    op: "aead_open c key (build_spool_nonce i) (build_spool_aad i (of_nat len)) ct tag = Inr pt"
    by (auto simp: len_def [symmetric] Let_def split: sum.splits)
  with Suc.prems r1 r2 r3 len have "io_bind (stdout_write_all pt) (\<lambda>r. case r of
      Inl e \<Rightarrow> io_return (Inl e) | Inr _ \<Rightarrow> release_blocks c key n (i + 1) rs3) w = (Ok (Inr u), w')"
    by (auto simp: len_def [symmetric] Let_def)
  then obtain v w1 where wr: "stdout_write_all pt w = (Ok (Inr v), w1)"
    and rel: "release_blocks c key n (i + 1) rs3 w1 = (Ok (Inr u), w')"
    by (auto elim!: io_bind_OkE split: sum.splits)
  note w1 = stdout_write_all_Inr [OF wr] rel
  from Suc.IH [OF w1(2)] obtain bs rest where bs: "length bs = n"
    "rd_bytes rs3 = spool_frames c key (i + 1) bs @ rest" "w_stdout w' = w_stdout w1 @ concat bs"
    "\<forall>b \<in> set bs. b \<noteq> [] \<and> length b \<le> SPOOL_CHUNK_SIZE"
    by blast
  have seal: "aead_seal c key (build_spool_nonce i) (build_spool_aad i (of_nat len)) pt = Inr (ct, tag)"
    "length pt = length ct"
    using aead_open_seal [OF assms op] by auto
  have lens: "length lb = 4" "length ct = len" "rd_bytes rs = lb @ ct @ tag @ rd_bytes rs3"
    using read_exact_Inr [OF r1] read_exact_Inr [OF r2] read_exact_Inr [OF r3] by auto
  have "be32 (of_nat len) = lb"
    by (simp add: len_def be32_from_be lens(1))
  then have "spool_frame c key i pt = lb @ ct @ tag"
    using seal lens(2) by (simp add: spool_frame_def)
  then show ?case
    using bs w1(1) lens seal(2) len by (intro exI [of _ "pt # bs"] exI [of _ rest]) auto
qed

lemma release_to_holds:
  assumes "aead_laws c" and "spool_holds c s p" and "length p < 2 ^ 64" and "faithful w"
  shows "release_to c s w = (Ok (Inr ()), w\<lparr>w_stdout := w_stdout w @ p\<rparr>)"
proof (cases "disk_file s")
  case None
  with assms(2,4) show ?thesis
    by (simp add: release_to_def spool_holds_def io_bind_def stdout_write_all_room faithful_def
        stdout_flush_def)
next
  case (Some f)
  with assms(2) obtain bs where bs: "f = spool_frames c (spool_key s) 0 bs" "p = concat bs"
    "block_counter s = of_nat (length bs)" "\<forall>b \<in> set bs. b \<noteq> [] \<and> length b \<le> SPOOL_CHUNK_SIZE"
    and key: "length (spool_key s) = 32"
    by (auto simp: spool_holds_def)
  have "length bs \<le> length (concat bs)"
    using bs(4) by (induction bs) (auto simp: neq_Nil_conv)
  with assms(3) bs(2,3) have n: "unat (block_counter s) = length bs"
    by (simp add: unat_of_nat)
  have "release_blocks c (spool_key s) (length bs) 0 [Data f] w =
      (Ok (Inr ()), w\<lparr>w_stdout := w_stdout w @ concat bs\<rparr>)"
    if "f \<noteq> []"
    by (rule release_blocks_frames [OF assms(1) key _ _ bs(4)])
      (use assms(4) bs(1) that in \<open>simp_all add: faithful_def\<close>)
  moreover have "bs = []" if "f = []"
  proof (cases bs)
    case (Cons b bs')
    then have "length b \<le> SPOOL_CHUNK_SIZE" using bs(4) by simp
    from spool_frame_sealed [OF assms(1) key this] have "spool_frame c (spool_key s) 0 b \<noteq> []"
      by (metis append_is_Nil_conv length_be32 list.size(3) zero_neq_numeral)
    with that bs(1) Cons show ?thesis by simp
  qed
  ultimately have "release_blocks c (spool_key s) (length bs) 0 [Data f] w =
      (Ok (Inr ()), w\<lparr>w_stdout := w_stdout w @ concat bs\<rparr>)"
    using assms(4) by (cases "f = []") (simp_all add: stdout_flush_def faithful_def)
  then show ?thesis
    using Some n bs(2) assms(4) by (simp add: release_to_def io_bind_def faithful_def)
qed

text \<open>On a disk that returns what was written a release writes a prefix of what is held, also
  when it fails, and all of it when it succeeds.\<close>

lemma release_to_prefix:
  assumes "aead_laws c" and "spool_holds c s p" and "length p < 2 ^ 64"
    and "w_disk_view w = (\<lambda>d. [Data d])" and "release_to c s w = (r, w')"
  shows "\<exists>d z. w_stdout w' = w_stdout w @ d \<and> p = d @ z \<and> (r = Ok (Inr ()) \<longrightarrow> z = [])"
proof (cases "disk_file s")
  case None
  then obtain q w1 where wr: "stdout_write_all (mem_buffer s) w = (q, w1)" by fastforce
  obtain d z where d: "w_stdout w1 = w_stdout w @ d" "mem_buffer s = d @ z" "q = Ok (Inr ()) \<longrightarrow> z = []"
    using stdout_write_all_prefix [OF wr] by blast
  have "w_stdout w' = w_stdout w1 \<and> (r = Ok (Inr ()) \<longrightarrow> q = Ok (Inr ()))"
    using assms(5) None wr by (auto simp: release_to_def io_bind_def stdout_flush_def
        split: res.splits sum.splits option.splits)
  moreover have "p = mem_buffer s" using assms(2) None by (simp add: spool_holds_def)
  ultimately show ?thesis using d by metis
next
  case (Some f)
  with assms(2) obtain bs where bs: "f = spool_frames c (spool_key s) 0 bs" "p = concat bs"
    "block_counter s = of_nat (length bs)" "\<forall>b \<in> set bs. b \<noteq> [] \<and> length b \<le> SPOOL_CHUNK_SIZE"
    and key: "length (spool_key s) = 32"
    by (auto simp: spool_holds_def)
  have "length bs \<le> length (concat bs)"
    using bs(4) by (induction bs) (auto simp: neq_Nil_conv)
  with assms(3) bs(2,3) have n: "unat (block_counter s) = length bs"
    by (simp add: unat_of_nat)
  show ?thesis
  proof (cases "w_seek w")
    case (Some e)
    with assms(5) \<open>disk_file s = Some f\<close> show ?thesis
      by (auto simp: release_to_def io_bind_def)
  next
    case None
    with assms(4,5) Some n have rel: "release_blocks c (spool_key s) (length bs) 0 [Data f] w = (r, w')"
      by (simp add: release_to_def io_bind_def)
    show ?thesis
    proof (cases "f = []")
      case False
      then have "live [Data f]" by simp
      from release_blocks_prefix [OF assms(1) key this _ bs(4) rel] bs(1,2) show ?thesis by simp
    next
      case True
      have "bs = []"
      proof (cases bs)
        case (Cons b bs')
        then have "length b \<le> SPOOL_CHUNK_SIZE" using bs(4) by simp
        from spool_frame_sealed [OF assms(1) key this] have "spool_frame c (spool_key s) 0 b \<noteq> []"
          by (metis append_is_Nil_conv length_be32 list.size(3) zero_neq_numeral)
        with True bs(1) Cons show ?thesis by simp
      qed
      with rel bs(2) show ?thesis by (auto simp: stdout_flush_def split: option.splits)
    qed
  qed
qed

text \<open>On a faithful disk and without a ceiling every write succeeds.\<close>

lemma store_chunk_faithful:
  assumes "aead_laws c" and "faithful w" and "length (spool_key s) = 32"
  shows "\<exists>s' w'. store_chunk c d s w = (Inr (), s', w') \<and> faithful w'"
proof (cases "disk_file s = None \<and> length (mem_buffer s) + length d \<le> MEMORY_SPOOL_LIMIT")
  case True
  with assms(2) show ?thesis by (simp add: store_chunk_def)
next
  case False
  then have st: "store_chunk c d s w = sp_bind (spill c) (\<lambda>_. flush_blocks c
      ''Spool disk write error: '' (chunks SPOOL_CHUNK_SIZE d)) s w"
    by (simp only: store_chunk_def if_False)
  have small: "\<forall>b \<in> set (chunks SPOOL_CHUNK_SIZE x). length b \<le> 2 ^ 32" for x :: bytes
    using chunks_nonempty [OF spool_chunk_pos(1)] by (fastforce simp: SPOOL_CHUNK_SIZE_def)
  have "\<exists>s1 w1. spill c s w = (Inr (), s1, w1) \<and> faithful w1"
  proof (cases "mem_buffer s = []")
    case True
    with assms(2) show ?thesis by (simp add: spill_def sp_return_def)
  next
    case False
    with flush_blocks_faithful [OF assms(2,1) _ small] assms(3) show ?thesis
      by (simp add: spill_def Let_def)
  qed
  then obtain s1 w1 where sp: "spill c s w = (Inr (), s1, w1)" and w1: "faithful w1" by blast
  have "length (spool_key s1) = 32"
    using spill_local [unfolded sp_local_def, rule_format, OF sp] assms(3) by simp
  from flush_blocks_faithful [OF w1 assms(1) this small] st sp show ?thesis
    by (simp add: sp_bind_def)
qed

lemma write_chunk_faithful:
  assumes "aead_laws c" and "spool_holds c s p" and "faithful w" and "max_size s = None"
  shows "\<exists>s' w'. write_chunk c d s w = (Inr (), s', w') \<and> faithful w'"
proof -
  have "length (spool_key s) = 32" using assms(2) by (simp add: spool_holds_def)
  then show ?thesis
    using store_chunk_faithful [OF assms(1,3), of "s\<lparr>total_bytes := total_bytes s + of_nat (length d)\<rparr>" d]
      assms(4) by (simp add: write_chunk_def over_ceiling_def Let_def)
qed

subsection \<open>The interface the streaming commands use\<close>

text \<open>
  A sink takes pieces of a stream and releases all of it at the end. Its laws: a written
  piece is appended to what it holds; writing does not touch standard output or input; a
  release writes what is held, no more and no less; and without a size ceiling nothing but
  the outside world can make a write fail.
\<close>

fun puts :: "('c \<Rightarrow> bytes \<Rightarrow> 's \<Rightarrow> world \<Rightarrow> (string + unit) \<times> 's \<times> world) \<Rightarrow>
    'c \<Rightarrow> bytes list \<Rightarrow> 's \<Rightarrow> world \<Rightarrow> (string + unit) \<times> 's \<times> world" where
  "puts put c [] s w = (Inr (), s, w)"
| "puts put c (d # ds) s w =
     (case put c d s w of (Inl e, s', w') \<Rightarrow> (Inl e, s', w') | (Inr _, s', w') \<Rightarrow> puts put c ds s' w')"

locale sink =
  fixes good :: "'c \<Rightarrow> bool"
    and holds :: "'c \<Rightarrow> 's \<Rightarrow> bytes \<Rightarrow> bool"
    and unbounded :: "'s \<Rightarrow> bool"
    and put :: "'c \<Rightarrow> bytes \<Rightarrow> 's \<Rightarrow> world \<Rightarrow> (string + unit) \<times> 's \<times> world"
    and release :: "'c \<Rightarrow> 's \<Rightarrow> (io_error + unit) io"
  assumes put_holds:
      "holds c s p \<Longrightarrow> put c d s w = (Inr u, s', w') \<Longrightarrow> holds c s' (p @ d)"
    and put_step: "put c d s w = (r, s', w') \<Longrightarrow> disk_step w w'"
    and put_unbounded: "put c d s w = (r, s', w') \<Longrightarrow> unbounded s' = unbounded s"
    and put_total:
      "good c \<Longrightarrow> holds c s p \<Longrightarrow> faithful w \<Longrightarrow> unbounded s \<Longrightarrow>
         \<exists>s' w'. put c d s w = (Inr (), s', w') \<and> faithful w'"
    and release_holds:
      "good c \<Longrightarrow> holds c s p \<Longrightarrow> length p < 2 ^ 64 \<Longrightarrow> faithful w \<Longrightarrow>
         release c s w = (Ok (Inr ()), w\<lparr>w_stdout := w_stdout w @ p\<rparr>)"
begin

lemma put_keeps_stdout: "put c d s w = (r, s', w') \<Longrightarrow> w_stdout w' = w_stdout w"
  using put_step disk_step_fields(1) by blast

lemma put_keeps_stdin: "put c d s w = (r, s', w') \<Longrightarrow> w_stdin w' = w_stdin w"
  using put_step disk_step_fields(2) by blast

lemma put_some:
  assumes "good c" and "holds c s p" and "faithful w" and "unbounded s"
  obtains s' w' where "put c d s w = (Inr (), s', w')" and "holds c s' (p @ d)" and "faithful w'"
    and "unbounded s'" and "w_stdout w' = w_stdout w" and "w_stdin w' = w_stdin w"
  using put_total [OF assms, of d] put_holds [OF assms(2)] put_unbounded assms(4)
    put_keeps_stdout put_keeps_stdin by metis

lemma puts_release:
  assumes "good c"
  shows "holds c s p \<Longrightarrow> faithful w \<Longrightarrow> unbounded s \<Longrightarrow> length p + length (concat ds) < 2 ^ 64 \<Longrightarrow>
    \<exists>s' w'. puts put c ds s w = (Inr (), s', w') \<and> w_stdout w' = w_stdout w \<and>
      release c s' w' = (Ok (Inr ()), w'\<lparr>w_stdout := w_stdout w @ p @ concat ds\<rparr>)"
proof (induction ds arbitrary: s w p)
  case Nil
  with release_holds [OF assms, of s p w] show ?case by simp
next
  case (Cons d ds)
  obtain s1 w1 where s1: "put c d s w = (Inr (), s1, w1)" "holds c s1 (p @ d)" "faithful w1" "unbounded s1"
    and w1: "w_stdout w1 = w_stdout w"
    by (rule put_some [OF assms Cons.prems(1-3)])
  have "length (p @ d) + length (concat ds) < 2 ^ 64" using Cons.prems(4) by simp
  from Cons.IH [OF s1(2-4) this] s1(1) w1 show ?case by simp
qed

end

interpretation spool: sink aead_laws spool_holds "\<lambda>s. max_size s = None" write_chunk release_to
  by unfold_locales
    (auto intro: write_chunk_holds write_chunk_step(1) write_chunk_faithful release_to_holds
      simp: write_chunk_step(3))

subsection \<open>The memory bound\<close>

lemma flush_single_memory:
  "flush_single_block_to_disk c b s w = (r, s', w') \<Longrightarrow> mem_buffer s' = mem_buffer s"
  by (auto simp: flush_single_block_to_disk_def sp_bind_def ensure_disk_file_def file_write_all_def
      sp_err_def Let_def split: option.splits prod.splits sum.splits if_splits)

lemma flush_blocks_memory:
  "flush_blocks c msg bs s w = (r, s', w') \<Longrightarrow> mem_buffer s' = mem_buffer s"
proof (induction bs arbitrary: s w)
  case (Cons b bs)
  then show ?case
    by (auto simp: sp_bind_def sp_map_err_def dest: flush_single_memory split: prod.splits sum.splits)
qed (simp add: sp_return_def)

lemma write_chunk_memory:
  assumes "length (mem_buffer s) \<le> MEMORY_SPOOL_LIMIT" and "write_chunk c d s w = (r, s', w')"
  shows "length (mem_buffer s') \<le> MEMORY_SPOOL_LIMIT"
proof -
  have spill: "length (mem_buffer v') \<le> length (mem_buffer v)" if "spill c v u = (q, v', u')" for v u q v' u'
    using that by (auto simp: spill_def Let_def sp_return_def dest!: flush_blocks_memory split: if_splits)
  have store: "length (mem_buffer v') \<le> MEMORY_SPOOL_LIMIT"
    if "store_chunk c d v u = (q, v', u')" "length (mem_buffer v) \<le> MEMORY_SPOOL_LIMIT" for v u q v' u'
    using that
    by (auto simp: store_chunk_def sp_bind_def dest!: flush_blocks_memory spill
        split: if_splits prod.splits sum.splits)
  from assms store show ?thesis
    by (fastforce simp: write_chunk_def Let_def sp_err_def split: if_splits)
qed

subsection \<open>Properties\<close>

text \<open>
  C12. A new spooler that is given any pieces of a stream releases exactly their
  concatenation, however large it is and whether it stayed in memory or went through the
  encrypted temporary file; until then nothing is written.
\<close>

theorem spool_release_exact:
  assumes "aead_laws c" and "spooler_new None w = (Ok s, w1)" and "faithful w"
    and "length (concat ds) < 2 ^ 64"
  shows "\<exists>s' w2. puts write_chunk c ds s w1 = (Inr (), s', w2) \<and> w_stdout w2 = w_stdout w \<and>
    release_to c s' w2 = (Ok (Inr ()), w2\<lparr>w_stdout := w_stdout w @ concat ds\<rparr>)"
proof -
  have s: "spool_holds c s []" "max_size s = None" and w1: "faithful w1" "w_stdout w1 = w_stdout w"
    using assms(2,3) by (auto simp: spooler_new_def io_bind_def os_random_def spool_holds_def)
  from spool.puts_release [OF assms(1) s(1) w1(1) s(2)] assms(4) w1(2) show ?thesis by simp
qed

theorem spool_release_exact_witness:
  "\<exists>s w1 s' w2. spooler_new None demo_world = (Ok s, w1) \<and>
     puts write_chunk demo [[1, 2], [3], replicate 70000 4] s w1 = (Inr (), s', w2) \<and>
     w_stdout (snd (release_to demo s' w2)) = [1, 2, 3] @ replicate 70000 4"
proof -
  obtain s w1 where n: "spooler_new None demo_world = (Ok s, w1)"
    by (simp add: spooler_new_def io_bind_def os_random_def)
  have "length (concat [[1, 2], [3], replicate 70000 (4 :: u8)]) < 2 ^ 64" by simp
  from spool_release_exact [OF demo_aead n faithful_demo_world this] n show ?thesis
    by (fastforce simp: demo_world_def)
qed



text \<open>
  C33. The plaintext a spooler keeps in memory never exceeds 16 MiB, whatever is written to it
  and whatever fails on the way.
\<close>

theorem spool_memory_bounded:
  assumes "length (mem_buffer s) \<le> MEMORY_SPOOL_LIMIT" and "puts write_chunk c ds s w = (r, s', w')"
  shows "length (mem_buffer s') \<le> MEMORY_SPOOL_LIMIT"
  using assms
proof (induction ds arbitrary: s w)
  case (Cons d ds)
  then show ?case
    by (auto split: prod.splits sum.splits dest: write_chunk_memory)
qed simp

theorem spool_memory_bounded_witness:
  "\<exists>s w r s' w'. spooler_new None demo_world = (Ok s, w) \<and>
     puts write_chunk demo [replicate 100 1, [2]] s w = (r, s', w') \<and>
     length (mem_buffer s') \<le> MEMORY_SPOOL_LIMIT"
proof -
  obtain s w where n: "spooler_new None demo_world = (Ok s, w)" and "mem_buffer s = []"
    by (auto simp: spooler_new_def io_bind_def os_random_def)
  moreover obtain r s' w' where p: "puts write_chunk demo [replicate 100 1, [2]] s w = (r, s', w')"
    using prod_cases3 by blast
  ultimately show ?thesis using spool_memory_bounded [OF _ p] by auto
qed

end
