(* ===== verification/Decrypt.thy ===== *)
theory Decrypt
  imports Encrypt Spool
begin

text \<open>
  \<open>run_decrypt\<close> (\<open>rust/src/main.rs\<close>): the header checks in their order, the keys and the
  header's MAC, the loop that reads, opens and spools one chunk at a time, the trailer of
  mode 1, the check for trailing bytes and the release. \<open>authentic\<close> says which inputs it
  accepts and what they decrypt to; the lemmas show that it accepts exactly those.
\<close>

subsection \<open>Header\<close>

text \<open>\<open>{:02x}\<close> of a byte\<close>

definition hex_nibble :: "nat \<Rightarrow> char" where
  "hex_nibble n = char_of (if n < 10 then 48 + n else 87 + n)"

definition show_hex2 :: "u8 \<Rightarrow> string" where
  "show_hex2 b = [hex_nibble (unat b div 16), hex_nibble (unat b mod 16)]"

definition check_header ::
  "bool \<Rightarrow> bool \<Rightarrow> bytes \<Rightarrow> bytes \<Rightarrow> pipek1_error + u8" where
  "check_header has_expected_sender allow_untrusted_sender expected_recip_pub header =
     (if slice header 0 4 \<noteq> MAGIC_HEADER
      then Inl (WireCorruption ''Invalid magic bytes (expected PK01)'')
      else if header ! 4 \<noteq> 0x01
      then Inl (WireCorruption (''Unsupported protocol version: '' @ show_nat (unat (header ! 4))))
      else let mode = header ! 5 in
      if mode \<noteq> 0x01 \<and> mode \<noteq> 0x02
      then Inl (WireCorruption (''Unsupported mode: '' @ show_nat (unat mode)))
      else if has_expected_sender \<and> mode = 0x02
      then Inl (WireCorruption (''Sender verification requested via --sender, but wire header '' @
        ''indicates Mode 2 (Anonymous)''))
      else if mode = 0x01 \<and> \<not> has_expected_sender \<and> \<not> allow_untrusted_sender
      then Inl (UsageError (''Mode 1 stream requires either --sender <npub|hex> or '' @
        ''--allow-untrusted-sender''))
      else if slice header 38 70 \<noteq> expected_recip_pub
      then Inl (WireCorruption ''Recipient public key mismatch on wire'')
      else Inr mode)"

text \<open>The key schedule of the receiver, and the MAC of the first 81 bytes.\<close>

definition header_payload_key :: "crypto \<Rightarrow> bytes \<Rightarrow> bytes \<Rightarrow> pipek1_error + bytes" where
  "header_payload_key c recip_priv header =
     (case ecdh_shared_x c recip_priv (slice header 6 38) of
        Inl e \<Rightarrow> Inl (WireCorruption (''ECDH calculation failed: '' @ e))
      | Inr ikm \<Rightarrow>
          (case derive_keys c ikm (slice header 70 81) of
             Inl e \<Rightarrow> Inl (WireCorruption (''Key derivation failed: '' @ e))
           | Inr (header_key, payload_key) \<Rightarrow>
               if compute_header_hmac c header_key (slice header 0 81) \<noteq> slice header 81 97
               then Inl (WireCorruption ''Header HMAC verification failed (tampered wire header)'')
               else Inr payload_key))"

definition read_header :: "bytes io" where
  "read_header =
     io_bind (stdin_read_exact WIRE_HEADER_SIZE)
       (io_try (\<lambda>e. WireCorruption (''Failed to read 97-byte header: '' @ io_msg e)))"

subsection \<open>Chunks\<close>

definition chunk_header_error :: "io_error \<Rightarrow> pipek1_error" where
  "chunk_header_error e =
     (if io_kind e = UnexpectedEof then WireCorruption ''Premature EOF before terminal chunk''
      else Io e)"

definition check_framing :: "u8 \<Rightarrow> nat \<Rightarrow> pipek1_error + unit" where
  "check_framing term_tag chunk_len =
     (if term_tag \<noteq> 0x00 \<and> term_tag \<noteq> 0x01
      then Inl (WireCorruption (''Framing violation: invalid terminal tag 0x'' @ show_hex2 term_tag @
        '' (expected 0x00 or 0x01)''))
      else if term_tag = 0x00 \<and> chunk_len \<noteq> CHUNK_SIZE
      then Inl (WireCorruption ''Framing violation: intermediate chunk must be exactly 64 KiB'')
      else if chunk_len > CHUNK_SIZE
      then Inl (WireCorruption ''Chunk size exceeds 64 KiB buffer limit'')
      else Inr ())"

definition read_chunk :: "crypto \<Rightarrow> bytes \<Rightarrow> bytes \<Rightarrow> u8 \<Rightarrow> u64 \<Rightarrow> (u8 \<times> bytes) io" where
  "read_chunk c payload_key recip_pub mode chunk_counter =
     io_bind (stdin_read_exact CHUNK_HEADER_SIZE) (\<lambda>r.
     io_bind (io_try chunk_header_error r) (\<lambda>chunk_hdr.
     let chunk_len = unat (from_be (slice chunk_hdr 0 4) :: u32);
         term_tag = chunk_hdr ! 4
     in io_bind (io_try id (check_framing term_tag chunk_len)) (\<lambda>_.
        io_bind (stdin_read_exact chunk_len) (\<lambda>r.
        io_bind (io_try from_io r) (\<lambda>ct_buffer.
        io_bind (stdin_read_exact TAG_SIZE) (\<lambda>r.
        io_bind (io_try from_io r) (\<lambda>tag_bytes.
        let nonce_bytes = build_nonce chunk_counter term_tag;
            aad = build_aad MAGIC_HEADER 0x01 mode recip_pub (of_nat chunk_len) chunk_counter term_tag
        in io_bind (io_try (\<lambda>_. WireCorruption
               ''Poly1305 AEAD tag verification failed (tampered chunk)'')
             (aead_open c payload_key nonce_bytes aad ct_buffer tag_bytes)) (\<lambda>pt.
           io_return (term_tag, pt)))))))))"

text \<open>The plaintext of a chunk goes to standard output at once, or to the spooler.\<close>

definition deliver :: "crypto \<Rightarrow> bool \<Rightarrow> bytes \<Rightarrow> spooler \<Rightarrow> spooler io" where
  "deliver c allow_unverified_stream pt s =
     (if allow_unverified_stream then
        io_bind (put pt) (\<lambda>_.
        io_bind stdout_flush (\<lambda>r.
        io_bind (io_try from_io r) (\<lambda>_. io_return s)))
      else (\<lambda>w. case write_chunk c pt s w of
          (Inl e, s', w') \<Rightarrow> (Err (UsageError e), w')
        | (Inr _, s', w') \<Rightarrow> (Ok s', w')))"

lemma stdin_read_exact_Inr:
  "stdin_read_exact n w = (Ok (Inr bs), w') \<Longrightarrow>
     rd_bytes (w_stdin w) = bs @ rd_bytes (w_stdin w') \<and> length bs = n \<and> w' = w\<lparr>w_stdin := w_stdin w'\<rparr>"
  by (auto simp: stdin_read_exact_def dest: read_exact_Inr split: prod.splits)

text \<open>What a chunk that was read and opened looked like on the wire.\<close>

lemma check_framing_ok:
  "check_framing t n = Inr () \<longleftrightarrow> (t = 0x00 \<and> n = CHUNK_SIZE) \<or> (t = 0x01 \<and> n \<le> CHUNK_SIZE)"
  by (auto simp: check_framing_def)

lemma read_chunk_Ok:
  assumes "aead_laws c" and "read_chunk c k r m i w = (Ok (t, pt), w')"
  shows "rd_bytes (w_stdin w) = wire_chunk c k r m i t pt @ rd_bytes (w_stdin w')"
    and "check_framing t (length pt) = Inr ()" and "w' = w\<lparr>w_stdin := w_stdin w'\<rparr>"
    and "5 \<le> length (wire_chunk c k r m i t pt)"
proof -
  obtain hdr w1 ct w2 tag where
    h: "stdin_read_exact CHUNK_HEADER_SIZE w = (Ok (Inr hdr), w1)" and
    f: "check_framing (hdr ! 4) (unat (from_be (slice hdr 0 4) :: u32)) = Inr ()" and
    b: "stdin_read_exact (unat (from_be (slice hdr 0 4) :: u32)) w1 = (Ok (Inr ct), w2)" and
    g: "stdin_read_exact TAG_SIZE w2 = (Ok (Inr tag), w')" and
    o: "aead_open c k (build_nonce i (hdr ! 4)) (build_aad MAGIC_HEADER 0x01 m r
       (of_nat (unat (from_be (slice hdr 0 4) :: u32))) i (hdr ! 4)) ct tag = Inr pt" and
    t: "t = hdr ! 4"
    using assms(2) unfolding read_chunk_def Let_def
    by (elim io_bind_OkE io_try_OkE) auto
  note H = stdin_read_exact_Inr [OF h] and B = stdin_read_exact_Inr [OF b]
    and G = stdin_read_exact_Inr [OF g]
  have seal: "aead_seal c k (build_nonce i t) (build_aad MAGIC_HEADER 0x01 m r
       (of_nat (length ct)) i t) pt = Inr (ct, tag)" "length pt = length ct"
    using aead_open_seal [OF assms(1) o] B t by auto
  have hl: "length hdr = 5" using H by (simp add: CHUNK_HEADER_SIZE_def)
  have "hdr = slice hdr 0 4 @ slice hdr 4 5"
    using slice_split [of 0 4 5 hdr] hl by simp
  moreover have "slice hdr 4 5 = [t]"
    using hl t by (auto simp: numeral_eq_Suc length_Suc_conv slice_def)
  moreover have "be32 (of_nat (length ct)) = slice hdr 0 4"
    using B hl by (simp add: be32_from_be)
  ultimately have hdr: "hdr = be32 (of_nat (length ct)) @ [t]" by simp
  have chunk: "wire_chunk c k r m i t pt = hdr @ ct @ tag"
    using seal hdr by (simp add: wire_chunk_def)
  then show "rd_bytes (w_stdin w) = wire_chunk c k r m i t pt @ rd_bytes (w_stdin w')"
    using H B G by simp
  show "check_framing t (length pt) = Inr ()" using f t B seal(2) by simp
  show "w' = w\<lparr>w_stdin := w_stdin w'\<rparr>" using H B G by (metis world.update_convs(1) world.surjective)
  show "5 \<le> length (wire_chunk c k r m i t pt)" using chunk hl by simp
qed

lemma read_chunk_progress:
  assumes "read_chunk c k r m i w = (Ok ch, w')"
  shows "length (rd_bytes (w_stdin w')) < length (rd_bytes (w_stdin w))"
proof -
  obtain hdr w1 ct w2 tag n where
    "stdin_read_exact CHUNK_HEADER_SIZE w = (Ok (Inr hdr), w1)"
    "stdin_read_exact n w1 = (Ok (Inr ct), w2)"
    "stdin_read_exact TAG_SIZE w2 = (Ok (Inr tag), w')"
    using assms unfolding read_chunk_def Let_def by (elim io_bind_OkE io_try_OkE) auto
  from this [THEN stdin_read_exact_Inr] show ?thesis by (simp add: CHUNK_HEADER_SIZE_def)
qed

lemma deliver_keeps_stdin: "deliver c a pt s w = (Ok s', w') \<Longrightarrow> w_stdin w' = w_stdin w"
  by (auto simp: deliver_def stdout_flush_def dest!: keepsD [OF keeps_stdin_put]
      elim!: io_bind_OkE io_try_OkE split: if_splits prod.splits sum.splits option.splits
      dest: spool.put_keeps_stdin)

text \<open>\<open>hashed\<close> is what the plaintext hasher was fed.\<close>

function decrypt_loop ::
  "crypto \<Rightarrow> bytes \<Rightarrow> bytes \<Rightarrow> u8 \<Rightarrow> bool \<Rightarrow> u64 \<Rightarrow> spooler \<Rightarrow> bytes \<Rightarrow> (spooler \<times> bytes) io" where
  "decrypt_loop c payload_key recip_pub mode allow_unverified_stream chunk_counter s hashed w =
     io_bind (read_chunk c payload_key recip_pub mode chunk_counter) (\<lambda>ch w1.
     case ch of (term_tag, pt) \<Rightarrow>
       let hashed = (if mode = 0x01 then hashed @ pt else hashed)
       in io_bind (deliver c allow_unverified_stream pt s) (\<lambda>s' w2.
          if term_tag = 0x01 then io_return (s', hashed) w2
          else decrypt_loop c payload_key recip_pub mode allow_unverified_stream
                 (chunk_counter + 1) s' hashed w2) w1) w"
  by pat_completeness auto
termination
proof (relation "measure (\<lambda>(c, k, r, m, a, i, s, h, w). length (rd_bytes (w_stdin w)))", goal_cases)
  case (2 c k r m a i s h w ch w1 t pt h' s' w2)
  have "length (rd_bytes (w_stdin w1)) < length (rd_bytes (w_stdin w))"
    using 2 read_chunk_progress by blast
  moreover have "w_stdin w2 = w_stdin w1"
    using 2 deliver_keeps_stdin by blast
  ultimately show ?case by simp
qed simp

declare decrypt_loop.simps [simp del]

subsection \<open>The trailer, the end of the stream, and the command\<close>

text \<open>The checks of a 96-byte trailer: the key, the signature, and that it signs the transcript.\<close>

definition check_trailer :: "crypto \<Rightarrow> bytes \<Rightarrow> bytes \<Rightarrow> bytes \<Rightarrow> pipek1_error + unit" where
  "check_trailer c hmac_16 hashed trailer =
     (let sender_pub = slice trailer 0 32; sig_bytes = slice trailer 32 96
      in case verifying_key c sender_pub of
           Inl e \<Rightarrow> Inl (WireCorruption (''Invalid sender public key in trailer: '' @ e))
         | Inr _ \<Rightarrow>
             (case signature_parse c sig_bytes of
                Inl e \<Rightarrow> Inl (WireCorruption (''Invalid signature framing in trailer: '' @ e))
              | Inr _ \<Rightarrow>
                  (case verify_raw c sender_pub (auth_hash c hmac_16 hashed) sig_bytes of
                     Inl e \<Rightarrow> Inl (AuthFailure (''Mode 1 trailer signature verification failed: '' @ e))
                   | Inr _ \<Rightarrow> Inr ())))"

text \<open>The expected sender, when there is one, must be the key that signed.\<close>

definition check_sender :: "crypto \<Rightarrow> string option \<Rightarrow> bool \<Rightarrow> bytes \<Rightarrow> string \<Rightarrow> unit io" where
  "check_sender c expected_sender allow_untrusted_sender sender_pub sender_npub =
     (case expected_sender of
        Some expd \<Rightarrow>
          io_bind (io_try UsageError (parse_key_bytes c expd)) (\<lambda>exp_bytes.
          if exp_bytes \<noteq> sender_pub
          then io_err (AuthFailure (''Authenticated sender '' @ sender_npub @
            '' does not match expected sender '' @ expd))
          else eprintln (''Notice: Authenticated Mode 1 stream verified from '' @ sender_npub))
      | None \<Rightarrow>
          io_when allow_untrusted_sender
            (eprintln (''Notice: Decrypted Mode 1 stream authenticated by untrusted sender '' @ sender_npub)))"

definition verify_trailer ::
  "crypto \<Rightarrow> string option \<Rightarrow> bool \<Rightarrow> bytes \<Rightarrow> bytes \<Rightarrow> unit io" where
  "verify_trailer c expected_sender allow_untrusted_sender hmac_16 hashed =
     io_bind (stdin_read_exact TRAILER_SIZE) (\<lambda>r.
     io_bind (io_try (\<lambda>e. WireCorruption
        (''Missing or truncated Mode 1 authenticated trailer: '' @ io_msg e)) r) (\<lambda>trailer.
     let sender_pub = slice trailer 0 32
     in io_bind (io_try id (check_trailer c hmac_16 hashed trailer)) (\<lambda>_.
        io_bind (io_unwrap ''called `Result::unwrap()` on an `Err` value'' (encode_npub c sender_pub))
          (check_sender c expected_sender allow_untrusted_sender sender_pub))))"

definition expect_eof :: "unit io" where
  "expect_eof =
     io_bind (stdin_read 1) (\<lambda>r.
     io_bind (io_try from_io r) (\<lambda>bs.
     io_when (bs \<noteq> []) (io_err (WireCorruption
       ''Unauthenticated trailing bytes detected after stream termination''))))"

text \<open>Everything up to the release: it returns the spooler.\<close>

definition decrypt_verified ::
  "crypto \<Rightarrow> string option \<Rightarrow> bool \<Rightarrow> bool \<Rightarrow> u64 option \<Rightarrow> bytes \<Rightarrow> spooler io" where
  "decrypt_verified c expected_sender allow_untrusted_sender allow_unverified_stream limit recip_priv =
     io_bind read_header (\<lambda>header.
     io_bind (io_try id (check_header (expected_sender \<noteq> None) allow_untrusted_sender
                (verifying_key_of c recip_priv) header)) (\<lambda>mode.
     io_bind (io_try id (header_payload_key c recip_priv header)) (\<lambda>payload_key.
     io_bind (spooler_new limit) (\<lambda>spooler.
     io_bind (decrypt_loop c payload_key (slice header 38 70) mode allow_unverified_stream 0 spooler [])
       (\<lambda>(spooler, hashed).
     io_bind (io_when (mode = 0x01)
       (verify_trailer c expected_sender allow_untrusted_sender (slice header 81 97) hashed)) (\<lambda>_.
     io_bind expect_eof (\<lambda>_. io_return spooler)))))))"

definition run_decrypt ::
  "crypto \<Rightarrow> string option \<Rightarrow> bool \<Rightarrow> bool \<Rightarrow> u64 option \<Rightarrow> key_intake_args \<Rightarrow> unit io" where
  "run_decrypt c expected_sender allow_untrusted_sender allow_unverified_stream limit key_args =
     io_bind (load_secret_key c key_args) (\<lambda>recip_priv.
     io_bind (io_try (\<lambda>e. UsageError (''Invalid secret key: '' @ e)) (signing_key c recip_priv)) (\<lambda>_.
     io_bind (decrypt_verified c expected_sender allow_untrusted_sender allow_unverified_stream
                limit recip_priv) (\<lambda>spooler.
     io_when (\<not> allow_unverified_stream)
       (io_bind (release_to c spooler) (io_try from_io)))))"

subsection \<open>What the stages before the release leave alone\<close>

text \<open>They keep standard output, and what the disk gives back.\<close>

definition calm :: "world \<Rightarrow> bytes \<times> (bytes \<Rightarrow> reader)" where
  "calm w = (w_stdout w, w_disk_view w)"

lemma calm_iff: "calm w' = calm w \<longleftrightarrow> w_stdout w' = w_stdout w \<and> w_disk_view w' = w_disk_view w"
  by (simp add: calm_def)

lemma keeps_calm_primitives [quiet_rules]:
  "keeps calm (eprintln s)"
  "keeps calm (stdin_read n)"
  "keeps calm (stdin_read_exact n)"
  "keeps calm (os_random n)"
  by (auto simp: keeps_def eprintln_def stdin_read_def stdin_read_exact_def os_random_def calm_def
      split: prod.splits)

lemma keeps_calm_load: "keeps calm (load_secret_key c args)"
proof (rule keeps_via [OF keeps_load_secret_key])
  fix v w assume "intake_view v = intake_view w"
  from intake_view_fields(1,13) [OF this] show "calm v = calm w" by (simp only: calm_iff)
qed

lemma keeps_read_chunk: "keeps calm (read_chunk c k r m i)"
  unfolding read_chunk_def Let_def by (intro quiet_rules)

lemma keeps_deliver: "keeps calm (deliver c False pt s)"
  using spool.put_step disk_step_fields(1,7)
  by (fastforce simp: keeps_def deliver_def calm_def split: prod.splits sum.splits)

lemma keeps_run_bind:
  assumes "keeps f m" and "\<And>x v. m w = (Ok x, v) \<Longrightarrow> f (snd (g x v)) = f v"
  shows "f (snd (io_bind m g w)) = f w"
  using assms by (auto simp: io_bind_def split: prod.splits res.splits dest: keepsD)

lemma decrypt_loop_calm: "\<not> a \<Longrightarrow> calm (snd (decrypt_loop c k r m a i s h w)) = calm w"
proof (induction c k r m a i s h w rule: decrypt_loop.induct)
  case (1 c k r m a i s h w)
  from "1.prems" have a: "a = False" by simp
  show ?case
    unfolding decrypt_loop.simps [of c k r m a i s h w]
  proof (rule keeps_run_bind [OF keeps_read_chunk], unfold split_beta Let_def, rule keeps_run_bind)
    show "keeps calm (deliver c a (snd ch) s)" for ch
      unfolding a by (rule keeps_deliver)
    fix ch w1 s' w2
    assume rd: "read_chunk c k r m i w = (Ok ch, w1)"
      and dl: "deliver c a (snd ch) s w1 = (Ok s', w2)"
    show "calm (snd (if fst ch = 0x01 then io_return (s', if m = 0x01 then h @ snd ch else h) w2
        else decrypt_loop c k r m a (i + 1) s' (if m = 0x01 then h @ snd ch else h) w2)) = calm w2"
      using "1.IH" [OF rd _ refl dl _ "1.prems", of "fst ch"] by simp
  qed
qed

lemma keeps_decrypt_loop: "keeps calm (decrypt_loop c k r m False i s h)"
  by (simp add: keeps_def decrypt_loop_calm)

lemma keeps_decrypt_verified: "keeps calm (decrypt_verified c es au False limit priv)"
  unfolding decrypt_verified_def read_header_def verify_trailer_def check_sender_def expect_eof_def
    spooler_new_def Let_def
  by (intro quiet_rules keeps_decrypt_loop)

subsection \<open>The inputs that decrypt\<close>

text \<open>
  The blocks of a stream: every block but the last is full, the last one at most. A stream
  whose plaintext is a multiple of 64 KiB has two such framings, with and without an empty
  last block.
\<close>

definition framed :: "bytes list \<Rightarrow> bool" where
  "framed bs \<longleftrightarrow>
     bs \<noteq> [] \<and> list_all (\<lambda>b. length b = CHUNK_SIZE) (butlast bs) \<and> length (last bs) \<le> CHUNK_SIZE"

definition authentic_trailer ::
  "crypto \<Rightarrow> string option \<Rightarrow> u8 \<Rightarrow> bytes \<Rightarrow> bytes \<Rightarrow> bytes \<Rightarrow> bool" where
  "authentic_trailer c expected_sender mode hmac_16 p tr \<longleftrightarrow>
     (if mode = 0x01 then
        length tr = TRAILER_SIZE \<and> check_trailer c hmac_16 p tr = Inr () \<and>
        encode_npub c (slice tr 0 32) \<noteq> None \<and>
        (case expected_sender of None \<Rightarrow> True | Some s \<Rightarrow> parse_key_bytes c s = Inr (slice tr 0 32))
      else tr = [])"

definition authentic ::
  "crypto \<Rightarrow> bytes \<Rightarrow> string option \<Rightarrow> bool \<Rightarrow> bytes \<Rightarrow> bytes \<Rightarrow> bool" where
  "authentic c priv expected_sender allow_untrusted_sender msg p \<longleftrightarrow>
     (\<exists>hdr mode pk bs tr.
        length hdr = WIRE_HEADER_SIZE \<and>
        check_header (expected_sender \<noteq> None) allow_untrusted_sender (verifying_key_of c priv) hdr = Inr mode \<and>
        header_payload_key c priv hdr = Inr pk \<and>
        framed bs \<and> p = concat bs \<and>
        authentic_trailer c expected_sender mode (slice hdr 81 97) p tr \<and>
        msg = hdr @ wire_stream c pk (slice hdr 38 70) mode 0 bs @ tr)"

lemma authenticI:
  assumes "length hdr = WIRE_HEADER_SIZE"
    and "check_header (es \<noteq> None) au (verifying_key_of c priv) hdr = Inr mode"
    and "header_payload_key c priv hdr = Inr pk" and "framed bs"
    and "authentic_trailer c es mode (slice hdr 81 97) (concat bs) tr"
  shows "authentic c priv es au (hdr @ wire_stream c pk (slice hdr 38 70) mode 0 bs @ tr) (concat bs)"
  using assms unfolding authentic_def by blast

lemma framed_single: "framed [b] \<longleftrightarrow> length b \<le> CHUNK_SIZE"
  by (simp add: framed_def)

lemma framed_Cons: "bs \<noteq> [] \<Longrightarrow> framed (b # bs) \<longleftrightarrow> length b = CHUNK_SIZE \<and> framed bs"
  by (auto simp: framed_def)

lemma framed_plain_blocks: "framed (plain_blocks p)"
  using chunks_butlast_full [of CHUNK_SIZE] plain_blocks_length [of "last (plain_blocks p)" p]
  by (auto simp: framed_def list_all_iff plain_blocks_def)

lemma deliver_spooled:
  "deliver c False pt s w = (Ok s', w') \<longleftrightarrow> write_chunk c pt s w = (Inr (), s', w')"
  by (auto simp: deliver_def split: prod.splits sum.splits)

lemma stdin_read_exact_live:
  "stdin_read_exact n w = (Ok r, w') \<Longrightarrow> live (w_stdin w) \<Longrightarrow> live (w_stdin w')"
  using read_loop_live [of "w_stdin w" "[]" n]
  by (auto simp: stdin_read_exact_def read_exact_def split: prod.splits if_splits)

lemma read_chunk_live:
  assumes "read_chunk c k r m i w = (Ok ch, w')" and "live (w_stdin w)"
  shows "live (w_stdin w')"
proof -
  obtain hdr w1 ct w2 tag n where
    "stdin_read_exact CHUNK_HEADER_SIZE w = (Ok (Inr hdr), w1)"
    "stdin_read_exact n w1 = (Ok (Inr ct), w2)"
    "stdin_read_exact TAG_SIZE w2 = (Ok (Inr tag), w')"
    using assms unfolding read_chunk_def Let_def by (elim io_bind_OkE io_try_OkE) auto
  with assms(2) show ?thesis using stdin_read_exact_live by blast
qed

text \<open>A loop that ends has read a framed stream, and spooled and hashed its plaintext.\<close>

lemma decrypt_loop_sound:
  "decrypt_loop c k r m a i s h w = (Ok (s', h'), w') \<Longrightarrow> aead_laws c \<Longrightarrow> \<not> a \<Longrightarrow>
     \<exists>bs. framed bs \<and> rd_bytes (w_stdin w) = wire_stream c k r m i bs @ rd_bytes (w_stdin w') \<and>
       h' = (if m = 0x01 then h @ concat bs else h) \<and>
       (live (w_stdin w) \<longrightarrow> live (w_stdin w')) \<and>
       (\<forall>p. spool_holds c s p \<longrightarrow> spool_holds c s' (p @ concat bs)) \<and>
       total_bytes s' = total_bytes s + of_nat (length (concat bs)) \<and>
       \<not> over_ceiling s' \<and> max_size s' = max_size s"
proof (induction c k r m a i s h w rule: decrypt_loop.induct)
  case (1 c k r m a i s h w)
  then have a: "a = False" by simp
  let ?h = "\<lambda>pt. if m = 0x01 then h @ pt else h"
  obtain t pt w1 s1 w2 where rd: "read_chunk c k r m i w = (Ok (t, pt), w1)"
    and dl: "deliver c a pt s w1 = (Ok s1, w2)"
    and fin: "(if t = 0x01 then io_return (s1, ?h pt) w2
      else decrypt_loop c k r m a (i + 1) s1 (?h pt) w2) = (Ok (s', h'), w')"
    using "1.prems"(1) unfolding decrypt_loop.simps [of c k r m a i s h w] Let_def
    by (elim io_bind_OkE) (auto split: prod.splits elim: io_bind_OkE)
  note chunk = read_chunk_Ok [OF "1.prems"(2) rd]
  have in2: "w_stdin w2 = w_stdin w1" using dl by (rule deliver_keeps_stdin)
  have live: "live (w_stdin w) \<longrightarrow> live (w_stdin w2)"
    using read_chunk_live [OF rd] in2 by simp
  have holds: "spool_holds c s1 (p @ pt)" if "spool_holds c s p" for p
    using dl that unfolding a deliver_spooled by (blast intro: spool.put_holds)
  have wr: "write_chunk c pt s w1 = (Inr (), s1, w2)" using dl unfolding a deliver_spooled .
  have total: "total_bytes s1 = total_bytes s + of_nat (length pt)" "\<not> over_ceiling s1"
    "max_size s1 = max_size s"
    using write_chunk_total [OF wr] write_chunk_step(3) [OF wr] by simp_all
  show ?case
  proof (cases "t = 0x01")
    case True
    with fin have "s' = s1" "h' = ?h pt" "w' = w2" by simp_all
    with True chunk(1,2) in2 live holds total show ?thesis
      by (intro exI [of _ "[pt]"]) (simp add: framed_single check_framing_ok)
  next
    case False
    with chunk(2) have t: "t = 0x00" "length pt = CHUNK_SIZE" by (simp_all add: check_framing_ok)
    from fin False have "decrypt_loop c k r m a (i + 1) s1 (?h pt) w2 = (Ok (s', h'), w')" by simp
    from "1.IH" [OF rd refl refl dl False this "1.prems"(2,3)] obtain bs where
      bs: "framed bs" "rd_bytes (w_stdin w2) = wire_stream c k r m (i + 1) bs @ rd_bytes (w_stdin w')"
      "h' = (if m = 0x01 then ?h pt @ concat bs else ?h pt)" "live (w_stdin w2) \<longrightarrow> live (w_stdin w')"
      "\<forall>p. spool_holds c s1 p \<longrightarrow> spool_holds c s' (p @ concat bs)"
      "total_bytes s' = total_bytes s1 + of_nat (length (concat bs))"
      "\<not> over_ceiling s'" "max_size s' = max_size s1"
      by blast
    from bs(1) have ne: "bs \<noteq> []" by (simp add: framed_def)
    have "spool_holds c s' (p @ concat (pt # bs))" if "spool_holds c s p" for p
    proof -
      have "spool_holds c s' ((p @ pt) @ concat bs)" using bs(5) holds [OF that] by blast
      then show ?thesis by simp
    qed
    with bs(1-4,6-8) ne t chunk(1) in2 live total show ?thesis
      by (intro exI [of _ "pt # bs"]) (simp add: framed_Cons wire_stream_cons)
  qed
qed

text \<open>An input that passes every check before the release is authentic, and the spooler
  holds its plaintext.\<close>

lemma expect_eof_Ok:
  assumes "expect_eof w = (Ok u, w')" and "live (w_stdin w)"
  shows "rd_bytes (w_stdin w) = [] \<and> w' = w\<lparr>w_stdin := []\<rparr>"
proof -
  obtain rs where "read 1 (w_stdin w) = (Inr [], rs)" "w' = w\<lparr>w_stdin := rs\<rparr>"
    using assms(1) unfolding expect_eof_def stdin_read_def
    by (elim io_bind_OkE io_try_OkE) (auto split: prod.splits simp: io_when_def split: if_splits)
  with read_live_eof [OF this(1) assms(2)] show ?thesis by simp
qed

lemma verify_trailer_Ok:
  assumes "verify_trailer c es au h p w = (Ok u, w')"
  shows "\<exists>tr. rd_bytes (w_stdin w) = tr @ rd_bytes (w_stdin w') \<and> authentic_trailer c es 0x01 h p tr \<and>
    (live (w_stdin w) \<longrightarrow> live (w_stdin w'))"
proof -
  obtain tr npub w1 where tr: "stdin_read_exact TRAILER_SIZE w = (Ok (Inr tr), w1)"
    and ck: "check_trailer c h p tr = Inr ()" "encode_npub c (slice tr 0 32) = Some npub"
    and se: "check_sender c es au (slice tr 0 32) npub w1 = (Ok u, w')"
    using assms unfolding verify_trailer_def Let_def
    by (elim io_bind_OkE io_try_OkE io_unwrap_OkE) auto
  have "w_stdin w' = w_stdin w1 \<and>
      (case es of None \<Rightarrow> True | Some s \<Rightarrow> parse_key_bytes c s = Inr (slice tr 0 32))"
    using se by (auto simp: check_sender_def eprintln_def io_when_def
        elim!: io_bind_OkE io_try_OkE split: option.splits if_splits)
  with stdin_read_exact_Inr [OF tr] stdin_read_exact_live [OF tr] ck show ?thesis
    by (intro exI [of _ tr]) (simp add: authentic_trailer_def)
qed

lemma spooler_new_Ok:
  assumes "spooler_new limit w = (Ok s, w')"
  shows "spool_holds c s []" and "max_size s = limit" and "total_bytes s = 0"
    and "w' = w\<lparr>w_rng_pos := w_rng_pos w + 32\<rparr>"
  using assms by (auto simp: spooler_new_def io_bind_def os_random_def spool_holds_def)

lemma decrypt_verified_sound:
  assumes "aead_laws c" and "live (w_stdin w)"
    and "decrypt_verified c es au False limit priv w = (Ok s, w')"
  shows "\<exists>p. authentic c priv es au (rd_bytes (w_stdin w)) p \<and> spool_holds c s p \<and>
    (\<forall>M. limit = Some M \<longrightarrow> length p < 2 ^ 64 \<longrightarrow> length p \<le> unat M)"
proof -
  obtain hdr w1 mode pk s0 w2 h w3 w4 where
    hd: "read_header w = (Ok hdr, w1)" and
    ck: "check_header (es \<noteq> None) au (verifying_key_of c priv) hdr = Inr mode" and
    pk: "header_payload_key c priv hdr = Inr pk" and
    sp: "spooler_new limit w1 = (Ok s0, w2)" and
    lp: "decrypt_loop c pk (slice hdr 38 70) mode False 0 s0 [] w2 = (Ok (s, h), w3)" and
    vt: "io_when (mode = 0x01) (verify_trailer c es au (slice hdr 81 97) h) w3 = (Ok (), w4)" and
    eof: "expect_eof w4 = (Ok (), w')"
    using assms(3) unfolding decrypt_verified_def
    by (elim io_bind_OkE io_try_OkE) (auto elim!: io_bind_OkE io_try_OkE)
  have h: "rd_bytes (w_stdin w) = hdr @ rd_bytes (w_stdin w1)" "length hdr = WIRE_HEADER_SIZE"
    "live (w_stdin w1)"
    using hd assms(2) unfolding read_header_def
    by (auto elim!: io_bind_OkE io_try_OkE dest: stdin_read_exact_Inr stdin_read_exact_live)
  have w2: "w_stdin w2 = w_stdin w1" using spooler_new_Ok(4) [OF sp] by simp
  have "\<not> False" by simp
  from decrypt_loop_sound [OF lp assms(1) this] obtain bs where bs0: "framed bs"
    "rd_bytes (w_stdin w2) = wire_stream c pk (slice hdr 38 70) mode 0 bs @ rd_bytes (w_stdin w3)"
    "h = (if mode = 0x01 then [] @ concat bs else [])" "live (w_stdin w2) \<longrightarrow> live (w_stdin w3)"
    "\<forall>p. spool_holds c s0 p \<longrightarrow> spool_holds c s (p @ concat bs)"
    and tot: "total_bytes s = total_bytes s0 + of_nat (length (concat bs))" "\<not> over_ceiling s"
      "max_size s = max_size s0"
    by blast
  have cap: "length (concat bs) \<le> unat M" if "limit = Some M" "length (concat bs) < 2 ^ 64" for M
  proof -
    have "of_nat (length (concat bs)) \<le> M"
      using that(1) tot spooler_new_Ok(2,3) [OF sp] by (simp add: over_ceiling_def not_less)
    with that(2) show ?thesis by (simp add: word_le_nat_alt unat_of_nat)
  qed
  from bs0(5) spooler_new_Ok(1) [OF sp, of c] have "spool_holds c s ([] @ concat bs)" by blast
  then have bs: "framed bs"
    "rd_bytes (w_stdin w2) = wire_stream c pk (slice hdr 38 70) mode 0 bs @ rd_bytes (w_stdin w3)"
    "h = (if mode = 0x01 then concat bs else [])" "live (w_stdin w3)" "spool_holds c s (concat bs)"
    using bs0(1-4) h(3) w2 by simp_all
  have "\<exists>tr. rd_bytes (w_stdin w3) = tr \<and>
      authentic_trailer c es mode (slice hdr 81 97) (concat bs) tr"
  proof (cases "mode = 0x01")
    case True
    with vt bs(3) have "verify_trailer c es au (slice hdr 81 97) (concat bs) w3 = (Ok (), w4)" by simp
    from verify_trailer_Ok [OF this] bs(4) expect_eof_Ok [OF eof] True show ?thesis by auto
  next
    case False
    with vt have "w4 = w3" by simp
    with expect_eof_Ok [OF eof] bs(4) False show ?thesis by (simp add: authentic_trailer_def)
  qed
  then obtain tr where tr: "rd_bytes (w_stdin w3) = tr"
    "authentic_trailer c es mode (slice hdr 81 97) (concat bs) tr" by blast
  from authenticI [OF h(2) ck pk bs(1) tr(2)] h(1) bs(2) w2 tr(1)
  have "authentic c priv es au (rd_bytes (w_stdin w)) (concat bs)" by simp
  with bs(5) cap show ?thesis by blast
qed

subsection \<open>Authentic inputs are accepted\<close>

lemma stdin_read_exact_smooth:
  assumes "smooth (w_stdin w)" and "rd_bytes (w_stdin w) = bs @ rest" and "length bs = n"
  obtains rs where "stdin_read_exact n w = (Ok (Inr bs), w\<lparr>w_stdin := rs\<rparr>)"
    and "rd_bytes rs = rest" and "smooth rs"
proof -
  obtain rs where rs: "read_loop n [] (w_stdin w) = (Inr bs, rs)" "rd_bytes rs = rest"
    using read_loop_live [OF smooth_live [OF assms(1)], of "[]" n] assms(2,3) by auto
  with read_loop_smooth [OF rs(1) assms(1)] assms(3) that show ?thesis
    by (simp add: stdin_read_exact_def read_exact_def)
qed

lemma read_chunk_smooth:
  assumes "aead_laws c" and "length k = 32" and fr: "check_framing t (length b) = Inr ()"
    and "smooth (w_stdin w)" and "rd_bytes (w_stdin w) = wire_chunk c k r m i t b @ rest"
  obtains rs where "read_chunk c k r m i w = (Ok (t, b), w\<lparr>w_stdin := rs\<rparr>)"
    and "rd_bytes rs = rest" and "smooth rs"
proof -
  have len: "length b \<le> CHUNK_SIZE" using fr by (auto simp: check_framing_ok)
  then have n: "unat (of_nat (length b) :: u32) = length b"
    by (simp add: unat_of_nat CHUNK_SIZE_def)
  let ?hdr = "be32 (of_nat (length b)) @ [t]"
  have hl: "length ?hdr = CHUNK_HEADER_SIZE" by (simp add: CHUNK_HEADER_SIZE_def)
  have hdr: "slice ?hdr 0 4 = be32 (of_nat (length b))" "?hdr ! 4 = t"
    by (simp_all add: nth_append)
  obtain ct tag where w: "wire_chunk c k r m i t b = ?hdr @ ct @ tag"
    "length ct = length b" "length tag = TAG_SIZE"
    "aead_open c k (build_nonce i t) (build_aad MAGIC_HEADER 0x01 m r (of_nat (length b)) i t) ct tag = Inr b"
    by (rule wire_chunk_ok [OF assms(1,2) len, of i t m r]) simp
  from assms(5) w(1) have b0: "rd_bytes (w_stdin w) = ?hdr @ ct @ tag @ rest" by simp
  obtain rs1 where r1: "stdin_read_exact CHUNK_HEADER_SIZE w = (Ok (Inr ?hdr), w\<lparr>w_stdin := rs1\<rparr>)"
    "rd_bytes rs1 = ct @ tag @ rest" "smooth rs1"
    by (rule stdin_read_exact_smooth [OF assms(4) b0 hl])
  have s1: "smooth (w_stdin (w\<lparr>w_stdin := rs1\<rparr>))" "rd_bytes (w_stdin (w\<lparr>w_stdin := rs1\<rparr>)) = ct @ tag @ rest"
    using r1 by simp_all
  obtain rs2 where r2: "stdin_read_exact (length b) (w\<lparr>w_stdin := rs1\<rparr>) = (Ok (Inr ct), w\<lparr>w_stdin := rs2\<rparr>)"
    "rd_bytes rs2 = tag @ rest" "smooth rs2"
    by (rule stdin_read_exact_smooth [OF s1 w(2)]) simp
  have s2: "smooth (w_stdin (w\<lparr>w_stdin := rs2\<rparr>))" "rd_bytes (w_stdin (w\<lparr>w_stdin := rs2\<rparr>)) = tag @ rest"
    using r2 by simp_all
  obtain rs3 where r3: "stdin_read_exact TAG_SIZE (w\<lparr>w_stdin := rs2\<rparr>) = (Ok (Inr tag), w\<lparr>w_stdin := rs3\<rparr>)"
    "rd_bytes rs3 = rest" "smooth rs3"
    by (rule stdin_read_exact_smooth [OF s2 w(3)]) simp
  have "read_chunk c k r m i w = (Ok (t, b), w\<lparr>w_stdin := rs3\<rparr>)"
    unfolding read_chunk_def
    by (simp only: io_bind_def r1(1) r2(1) r3(1) prod.case res.case io_try_simps io_run_simps
        hdr from_be_be32 n fr Let_def w(4))
  with r3(2,3) that show ?thesis by blast
qed

lemma deliver_complete:
  assumes "aead_laws c" and "faithful w" and "spool_holds c s p" and "max_size s = None"
  obtains s1 w1 where "deliver c a b s w = (Ok s1, w1)"
    and "spool_holds c s1 (if a then p else p @ b)" and "faithful w1" and "max_size s1 = None"
    and "w_stdin w1 = w_stdin w" and "w_stdout w1 = w_stdout w @ (if a then b else [])"
proof (cases a)
  case True
  have "w_room w = None" "w_flush_err w = None" using assms(2) by (simp_all add: faithful_def)
  then have "deliver c a b s w = (Ok s, w\<lparr>w_stdout := w_stdout w @ b\<rparr>)"
    using True by (simp add: deliver_def io_bind_def put_room stdout_flush_def)
  with that True assms show ?thesis by simp
next
  case False
  obtain s1 w1 where "write_chunk c b s w = (Inr (), s1, w1)" "spool_holds c s1 (p @ b)" "faithful w1"
    "max_size s1 = None" "w_stdout w1 = w_stdout w" "w_stdin w1 = w_stdin w"
    by (rule spool.put_some [OF assms(1,3,2,4)])
  with that False show ?thesis by (simp add: deliver_spooled)
qed

text \<open>The loop on a whole stream: its plaintext is spooled, or written at once.\<close>

lemma decrypt_loop_complete:
  assumes laws: "aead_laws c" "length k = 32"
  shows "framed bs \<Longrightarrow> smooth (w_stdin w) \<Longrightarrow>
     rd_bytes (w_stdin w) = wire_stream c k r m i bs @ rest \<Longrightarrow>
     faithful w \<Longrightarrow> spool_holds c s p \<Longrightarrow> max_size s = None \<Longrightarrow>
     \<exists>s' w'. decrypt_loop c k r m a i s h w =
         (Ok (s', if m = 0x01 then h @ concat bs else h), w') \<and>
       spool_holds c s' (if a then p else p @ concat bs) \<and> rd_bytes (w_stdin w') = rest \<and>
       smooth (w_stdin w') \<and> faithful w' \<and> w_stdout w' = w_stdout w @ (if a then concat bs else [])"
proof (induction bs arbitrary: i s h w p)
  case Nil
  then show ?case by (simp add: framed_def)
next
  case (Cons b bs)
  define t where "t = (if bs = [] then 0x01 else 0x00 :: u8)"
  let ?h = "if m = 0x01 then h @ b else h"
  have fr: "check_framing t (length b) = Inr ()"
    using Cons.prems(1) by (cases "bs = []") (simp_all add: check_framing_ok t_def framed_single framed_Cons)
  have bytes: "rd_bytes (w_stdin w) = wire_chunk c k r m i t b @
      (if bs = [] then rest else wire_stream c k r m (i + 1) bs @ rest)"
    using Cons.prems(3) by (cases "bs = []") (simp_all add: t_def wire_stream_cons)
  obtain rs where rd: "read_chunk c k r m i w = (Ok (t, b), w\<lparr>w_stdin := rs\<rparr>)"
    "rd_bytes rs = (if bs = [] then rest else wire_stream c k r m (i + 1) bs @ rest)" "smooth rs"
    by (rule read_chunk_smooth [OF laws fr Cons.prems(2) bytes])
  have fa: "faithful (w\<lparr>w_stdin := rs\<rparr>)" using Cons.prems(4) by simp
  obtain s1 w1 where dl: "deliver c a b s (w\<lparr>w_stdin := rs\<rparr>) = (Ok s1, w1)"
    and s1: "spool_holds c s1 (if a then p else p @ b)" "faithful w1" "max_size s1 = None"
    and w1: "w_stdin w1 = w_stdin (w\<lparr>w_stdin := rs\<rparr>)" "w_stdout w1 = w_stdout w @ (if a then b else [])"
    using deliver_complete [OF laws(1) fa Cons.prems(5,6), of a b] by auto
  have step: "decrypt_loop c k r m a i s h w =
      (if t = 0x01 then io_return (s1, ?h) w1 else decrypt_loop c k r m a (i + 1) s1 ?h w1)"
    by (simp only: decrypt_loop.simps [of c k r m a i s h w] io_bind_def rd(1) dl
        prod.case res.case Let_def)
  show ?case
  proof (cases "bs = []")
    case True
    with step s1 w1 rd(2,3) show ?thesis by (cases a) (simp_all add: t_def)
  next
    case False
    with Cons.prems(1) have "framed bs" by (simp add: framed_Cons)
    from Cons.IH [OF this _ _ s1(2,1,3), of "i + 1" ?h] w1 rd(2,3) False obtain s' w' where
      "decrypt_loop c k r m a (i + 1) s1 ?h w1 =
         (Ok (s', if m = 0x01 then ?h @ concat bs else ?h), w')"
      "spool_holds c s' (if a then p else (p @ b) @ concat bs)" "rd_bytes (w_stdin w') = rest"
      "smooth (w_stdin w')" "faithful w'" "w_stdout w' = w_stdout w1 @ (if a then concat bs else [])"
      by (cases a) auto
    with step False w1 show ?thesis by (auto simp: t_def)
  qed
qed

lemma verify_trailer_complete:
  assumes "authentic_trailer c es 0x01 h p tr" and "smooth (w_stdin w)" and "rd_bytes (w_stdin w) = tr"
    and "faithful w"
  shows "\<exists>w'. verify_trailer c es au h p w = (Ok (), w') \<and> rd_bytes (w_stdin w') = [] \<and>
    smooth (w_stdin w') \<and> faithful w' \<and> w_stdout w' = w_stdout w"
proof -
  have at: "length tr = TRAILER_SIZE" "check_trailer c h p tr = Inr ()"
    "case es of None \<Rightarrow> True | Some s \<Rightarrow> parse_key_bytes c s = Inr (slice tr 0 32)"
    using assms(1) by (simp_all add: authentic_trailer_def)
  obtain npub where npub: "encode_npub c (slice tr 0 32) = Some npub"
    using assms(1) by (auto simp: authentic_trailer_def)
  have b: "rd_bytes (w_stdin w) = tr @ []" using assms(3) by simp
  obtain rs where rd: "stdin_read_exact TRAILER_SIZE w = (Ok (Inr tr), w\<lparr>w_stdin := rs\<rparr>)"
    and rs: "rd_bytes rs = []" "smooth rs"
    by (rule stdin_read_exact_smooth [OF assms(2) b at(1)])
  have "\<exists>es'. check_sender c es au (slice tr 0 32) npub v = (Ok (), v\<lparr>w_stderr := es'\<rparr>)" for v
    using at(3) by (auto simp: check_sender_def eprintln_def io_when_def split: option.splits)
      (metis world.surjective world.update_convs(6))
  then obtain es' where "check_sender c es au (slice tr 0 32) npub (w\<lparr>w_stdin := rs\<rparr>) =
      (Ok (), w\<lparr>w_stdin := rs, w_stderr := es'\<rparr>)" by blast
  then have "verify_trailer c es au h p w = (Ok (), w\<lparr>w_stdin := rs, w_stderr := es'\<rparr>)"
    by (simp only: verify_trailer_def io_bind_def rd prod.case res.case io_try_simps io_run_simps
        Let_def at(2) npub io_unwrap_simps)
  with rs assms(4) show ?thesis by simp
qed

lemma header_payload_key_length:
  assumes "digest_laws c" and "header_payload_key c priv hdr = Inr pk"
  shows "length pk = 32"
proof -
  obtain ikm hk where "derive_keys c ikm (slice hdr 70 81) = Inr (hk, pk)"
    using assms(2) by (auto simp: header_payload_key_def split: sum.splits prod.splits if_splits)
  with derive_keys_ok [OF assms(1), of ikm "slice hdr 70 81"] show ?thesis by simp
qed

lemma decrypt_verified_complete:
  assumes laws: "digest_laws c" "aead_laws c"
    and au: "authentic c priv es au (rd_bytes (w_stdin w)) p"
    and w: "smooth (w_stdin w)" "faithful w"
  shows "\<exists>s w'. decrypt_verified c es au a None priv w = (Ok s, w') \<and>
    spool_holds c s (if a then [] else p) \<and> faithful w' \<and>
    w_stdout w' = w_stdout w @ (if a then p else [])"
proof -
  from au obtain hdr mode pk bs tr where
    hl: "length hdr = WIRE_HEADER_SIZE" and
    ck: "check_header (es \<noteq> None) au (verifying_key_of c priv) hdr = Inr mode" and
    pk: "header_payload_key c priv hdr = Inr pk" and
    bs: "framed bs" "p = concat bs" and
    tr: "authentic_trailer c es mode (slice hdr 81 97) p tr" and
    msg: "rd_bytes (w_stdin w) = hdr @ wire_stream c pk (slice hdr 38 70) mode 0 bs @ tr"
    unfolding authentic_def by metis
  obtain rs1 where r1: "stdin_read_exact WIRE_HEADER_SIZE w = (Ok (Inr hdr), w\<lparr>w_stdin := rs1\<rparr>)"
    "rd_bytes rs1 = wire_stream c pk (slice hdr 38 70) mode 0 bs @ tr" "smooth rs1"
    by (rule stdin_read_exact_smooth [OF w(1) msg hl])
  then have hd: "read_header w = (Ok hdr, w\<lparr>w_stdin := rs1\<rparr>)"
    by (simp add: read_header_def io_bind_def)
  obtain s0 w2 where sp: "spooler_new None (w\<lparr>w_stdin := rs1\<rparr>) = (Ok s0, w2)"
    by (simp add: spooler_new_def io_bind_def os_random_def)
  note s0 = spooler_new_Ok [OF sp]
  have w2: "smooth (w_stdin w2)" "rd_bytes (w_stdin w2) = wire_stream c pk (slice hdr 38 70) mode 0 bs @ tr"
    "faithful w2" "w_stdout w2 = w_stdout w"
    using s0(4) r1 w(2) by simp_all
  obtain s w3 where lp: "decrypt_loop c pk (slice hdr 38 70) mode a 0 s0 [] w2 =
        (Ok (s, if mode = 0x01 then p else []), w3)"
    and s: "spool_holds c s (if a then [] else p)"
    and w3: "rd_bytes (w_stdin w3) = tr" "smooth (w_stdin w3)" "faithful w3"
      "w_stdout w3 = w_stdout w2 @ (if a then p else [])"
    using decrypt_loop_complete [OF laws(2) header_payload_key_length [OF laws(1) pk] bs(1) w2(1-3) s0(1,2), of a "[]"]
      bs(2) by (cases a) auto
  let ?h = "if mode = 0x01 then p else []"
  have "\<exists>w4. io_when (mode = 0x01) (verify_trailer c es au (slice hdr 81 97) ?h) w3 = (Ok (), w4) \<and>
      rd_bytes (w_stdin w4) = [] \<and> smooth (w_stdin w4) \<and> faithful w4 \<and> w_stdout w4 = w_stdout w3"
  proof (cases "mode = 0x01")
    case True
    with verify_trailer_complete [OF tr [unfolded True] w3(2,1,3)] show ?thesis by simp
  next
    case False
    with tr w3 show ?thesis by (simp add: authentic_trailer_def)
  qed
  then obtain w4 where vt: "io_when (mode = 0x01) (verify_trailer c es au (slice hdr 81 97) ?h) w3 = (Ok (), w4)"
    and w4: "rd_bytes (w_stdin w4) = []" "smooth (w_stdin w4)" "faithful w4" "w_stdout w4 = w_stdout w3"
    by blast
  have "w_stdin w4 = []"
    using w4(1,2) by (cases "w_stdin w4" rule: rd_bytes.cases) simp_all
  then have eof: "expect_eof w4 = (Ok (), w4\<lparr>w_stdin := []\<rparr>)"
    by (simp add: expect_eof_def stdin_read_def io_bind_def)
  have "decrypt_verified c es au a None priv w = (Ok s, w4\<lparr>w_stdin := []\<rparr>)"
    by (simp only: decrypt_verified_def io_bind_def hd ck pk id_def sp lp vt eof prod.case res.case
        io_try_simps io_run_simps)
  with s w4 w3 w2 show ?thesis by simp
qed

subsection \<open>The command\<close>

text \<open>With a key that loads, on a smooth input and a faithful world, the command succeeds on
  authentic inputs and writes their plaintext.\<close>

lemma run_decrypt_complete:
  assumes laws: "digest_laws c" "aead_laws c"
    and key: "load_secret_key c args w = (Ok priv, w1)" "signing_key c priv = Inr ()"
    and au: "authentic c priv es au (rd_bytes (w_stdin w)) p" "length p < 2 ^ 64"
    and w: "smooth (w_stdin w)" "faithful w"
  shows "\<exists>w'. run_decrypt c es au False None args w = (Ok (), w') \<and> w_stdout w' = w_stdout w @ p"
proof -
  note step = keepsD [OF keeps_load_secret_key key(1)]
  have w1: "w_stdin w1 = w_stdin w" "w_stdout w1 = w_stdout w" "faithful w1"
    using intake_view_fields(1,2) [OF step] intake_view_faithful [OF step] w(2) by simp_all
  from decrypt_verified_complete [OF laws, of priv es au w1 p False] au(1) w w1 obtain s w2 where
    dv: "decrypt_verified c es au False None priv w1 = (Ok s, w2)" and
    s: "spool_holds c s p" "faithful w2" "w_stdout w2 = w_stdout w" by auto
  have "release_to c s w2 = (Ok (Inr ()), w2\<lparr>w_stdout := w_stdout w2 @ p\<rparr>)"
    by (rule spool.release_holds [OF laws(2) s(1) au(2) s(2)])
  then have "run_decrypt c es au False None args w = (Ok (), w2\<lparr>w_stdout := w_stdout w2 @ p\<rparr>)"
    by (simp add: run_decrypt_def io_bind_def key dv)
  with s(3) show ?thesis by simp
qed

text \<open>Nothing is written before every check has passed.\<close>

lemma run_decrypt_release:
  assumes "run_decrypt c es au False limit args w = (r, w')" and "w_stdout w' \<noteq> w_stdout w \<or> r = Ok ()"
  shows "\<exists>priv w1 s w2. load_secret_key c args w = (Ok priv, w1) \<and> signing_key c priv = Inr () \<and>
    decrypt_verified c es au False limit priv w1 = (Ok s, w2) \<and>
    calm w2 = calm w \<and> io_bind (release_to c s) (io_try from_io) w2 = (r, w')"
proof -
  obtain rk w1 where load: "load_secret_key c args w = (rk, w1)" by fastforce
  have o1: "calm w1 = calm w" using keepsD [OF keeps_calm_load load] .
  show ?thesis
  proof (cases "\<exists>priv. rk = Ok priv \<and> signing_key c priv = Inr ()")
    case False
    then have "w' = w1 \<and> r \<noteq> Ok ()"
      using assms(1) load by (cases rk) (auto simp: run_decrypt_def io_bind_def io_try_def split: sum.splits)
    with assms(2) o1 show ?thesis by (simp add: calm_iff)
  next
    case True
    then obtain priv where priv: "rk = Ok priv" "signing_key c priv = Inr ()" by blast
    obtain rs w2 where dv: "decrypt_verified c es au False limit priv w1 = (rs, w2)" by fastforce
    have o2: "calm w2 = calm w" using keepsD [OF keeps_decrypt_verified dv] o1 by simp
    show ?thesis
    proof (cases rs)
      case (Ok s)
      with assms(1) load priv dv have "io_bind (release_to c s) (io_try from_io) w2 = (r, w')"
        by (simp add: run_decrypt_def io_bind_def [of "load_secret_key c args"] io_bind_def [of "decrypt_verified c es au False limit priv"])
      with load priv dv Ok o2 show ?thesis by blast
    qed (use assms load priv dv o2 in \<open>auto simp: run_decrypt_def io_bind_def calm_iff\<close>)
  qed
qed

lemma io_bind_try_world:
  "io_bind m (io_try g) w = (r, w') \<Longrightarrow> \<exists>q. m w = (q, w') \<and> (\<forall>x. r = Ok x \<longrightarrow> q = Ok (Inr x))"
  by (auto simp: io_bind_def io_try_def split: prod.splits res.splits sum.splits)

text \<open>
  So an output that changed, or a success, means an authentic input within the ceiling, and on a disk that
  returns what was written the output is a prefix of its plaintext.
\<close>

lemma run_decrypt_sound:
  assumes "aead_laws c" and "live (w_stdin w)"
    and "run_decrypt c es au False limit args w = (r, w')" and "w_stdout w' \<noteq> w_stdout w \<or> r = Ok ()"
  shows "\<exists>priv w1 p. load_secret_key c args w = (Ok priv, w1) \<and> signing_key c priv = Inr () \<and>
    authentic c priv es au (rd_bytes (w_stdin w)) p \<and>
    (\<forall>M. limit = Some M \<longrightarrow> length p < 2 ^ 64 \<longrightarrow> length p \<le> unat M) \<and>
    (w_disk_view w = (\<lambda>d. [Data d]) \<longrightarrow> length p < 2 ^ 64 \<longrightarrow>
       (\<exists>d z. w_stdout w' = w_stdout w @ d \<and> p = d @ z \<and> (r = Ok () \<longrightarrow> z = [])))"
proof -
  from run_decrypt_release [OF assms(3,4)] obtain priv w1 s w2 where
    key: "load_secret_key c args w = (Ok priv, w1)" "signing_key c priv = Inr ()" and
    dv: "decrypt_verified c es au False limit priv w1 = (Ok s, w2)" and
    w2: "calm w2 = calm w" and rel: "io_bind (release_to c s) (io_try from_io) w2 = (r, w')" by blast
  have in1: "w_stdin w1 = w_stdin w"
    by (rule intake_view_fields(2) [OF keepsD [OF keeps_load_secret_key key(1)]])
  from decrypt_verified_sound [OF assms(1) _ dv] assms(2) in1 obtain p where
    p: "authentic c priv es au (rd_bytes (w_stdin w)) p" "spool_holds c s p"
    "\<forall>M. limit = Some M \<longrightarrow> length p < 2 ^ 64 \<longrightarrow> length p \<le> unat M" by auto
  obtain q where q: "release_to c s w2 = (q, w')" "r = Ok () \<longrightarrow> q = Ok (Inr ())"
    using io_bind_try_world [OF rel] by blast
  have "\<exists>d z. w_stdout w' = w_stdout w @ d \<and> p = d @ z \<and> (r = Ok () \<longrightarrow> z = [])"
    if "w_disk_view w = (\<lambda>d. [Data d])" "length p < 2 ^ 64"
    using release_to_prefix [OF assms(1) p(2) that(2) _ q(1)] that(1) w2 q(2) by (auto simp: calm_iff)
  with key p show ?thesis by blast
qed

subsection \<open>What \<open>run_encrypt\<close> writes is authentic\<close>

lemma header_of_message:
  fixes m hk
  assumes "length e = 32" and "length r = 32" and "length s = 11" and "digest_laws c"
  defines "hdr \<equiv> header_prefix m e r s @ compute_header_hmac c hk (header_prefix m e r s)"
  shows "length hdr = WIRE_HEADER_SIZE"
    and "slice hdr 38 70 = r" and "slice hdr 81 97 = compute_header_hmac c hk (header_prefix m e r s)"
    and "check_header expd au r hdr =
      (if m \<noteq> 0x01 \<and> m \<noteq> 0x02
       then Inl (WireCorruption (''Unsupported mode: '' @ show_nat (unat m)))
       else if expd \<and> m = 0x02
       then Inl (WireCorruption (''Sender verification requested via --sender, but wire header '' @
         ''indicates Mode 2 (Anonymous)''))
       else if m = 0x01 \<and> \<not> expd \<and> \<not> au
       then Inl (UsageError (''Mode 1 stream requires either --sender <npub|hex> or '' @
         ''--allow-untrusted-sender''))
       else Inr m)"
    and "ecdh_shared_x c k e = Inr ikm \<Longrightarrow> derive_keys c ikm s = Inr (hk, pk) \<Longrightarrow>
      header_payload_key c k hdr = Inr pk"
proof -
  have h: "length (compute_header_hmac c hk (header_prefix m e r s)) = 16"
    using assms(4) by (rule length_header_hmac)
  note f = header_fields [OF assms(1-3) h, of m, folded hdr_def]
  show "length hdr = WIRE_HEADER_SIZE"
    using assms(1-3) h by (simp add: hdr_def WIRE_HEADER_SIZE_def)
  show "slice hdr 38 70 = r" "slice hdr 81 97 = compute_header_hmac c hk (header_prefix m e r s)"
    by (rule f)+
  show "check_header expd au r hdr =
      (if m \<noteq> 0x01 \<and> m \<noteq> 0x02
       then Inl (WireCorruption (''Unsupported mode: '' @ show_nat (unat m)))
       else if expd \<and> m = 0x02
       then Inl (WireCorruption (''Sender verification requested via --sender, but wire header '' @
         ''indicates Mode 2 (Anonymous)''))
       else if m = 0x01 \<and> \<not> expd \<and> \<not> au
       then Inl (UsageError (''Mode 1 stream requires either --sender <npub|hex> or '' @
         ''--allow-untrusted-sender''))
       else Inr m)"
    by (simp add: check_header_def f Let_def del: append.simps)
  assume "ecdh_shared_x c k e = Inr ikm" "derive_keys c ikm s = Inr (hk, pk)"
  then show "header_payload_key c k hdr = Inr pk"
    by (simp add: header_payload_key_def f)
qed

text \<open>The trailer of mode 1 passes its checks.\<close>

lemma sender_trailer_authentic:
  assumes "schnorr_laws c" and "codec_laws c" and "digest_laws c" and "signing_key c sk = Inr ()"
    and "es = None \<or> (\<exists>txt. es = Some txt \<and> parse_key_bytes c txt = Inr (verifying_key_of c sk))"
  shows "\<exists>tr. sender_trailer c (Some sk) h p = Inr tr \<and> authentic_trailer c es 0x01 h p tr"
proof -
  have "length (auth_hash c h p) = 32" using assms(3) by (rule auth_hash_length)
  then obtain sig where sig: "sign_raw c sk (auth_hash c h p) (replicate 32 0) = Inr sig"
    "length sig = 64" "signature_parse c sig = Inr ()"
    "verify_raw c (verifying_key_of c sk) (auth_hash c h p) sig = Inr ()"
    "length (verifying_key_of c sk) = 32" "verifying_key c (verifying_key_of c sk) = Inr ()"
    using schnorr_sign_ok [OF assms(1,4), of "auth_hash c h p" "replicate 32 0"] by (metis length_replicate)
  let ?tr = "verifying_key_of c sk @ sig"
  have sl: "slice ?tr 0 32 = verifying_key_of c sk" "slice ?tr 32 96 = sig"
    using sig(2,5) by (simp_all add: slice_append_right)
  have "bech32_encode c ''npub'' (verifying_key_of c sk) \<noteq> None"
    using assms(2) [unfolded codec_laws_def, THEN conjunct2, rule_format, of "''npub''", OF _ sig(5)] by auto
  with sig sl assms(5) have "authentic_trailer c es 0x01 h p ?tr"
    by (auto simp: authentic_trailer_def check_trailer_def TRAILER_SIZE_def encode_npub_def)
  with sig(1) show ?thesis by (simp add: sender_trailer_def)
qed

lemma wire_message_authentic:
  assumes laws: "digest_laws c" "length (verifying_key_of c e) = 32"
    and priv: "length (verifying_key_of c priv) = 32" and s: "length s = 11"
    and ikm: "ecdh_shared_x c priv (verifying_key_of c e) = Inr ikm"
    and keys: "derive_keys c ikm s = Inr (hk, pk)"
    and mode: "(m = 0x01 \<and> (es \<noteq> None \<or> au)) \<or> (m = 0x02 \<and> es = None)"
    and tr: "authentic_trailer c es m
      (compute_header_hmac c hk (header_prefix m (verifying_key_of c e) (verifying_key_of c priv) s)) p tr"
  shows "authentic c priv es au
    (wire_message c m (verifying_key_of c e) (verifying_key_of c priv) s hk pk p tr) p"
proof -
  note H = header_of_message [OF laws(2) priv s laws(1), where m = m and hk = hk]
  have ck: "check_header (es \<noteq> None) au (verifying_key_of c priv)
      (header_prefix m (verifying_key_of c e) (verifying_key_of c priv) s @
       compute_header_hmac c hk (header_prefix m (verifying_key_of c e) (verifying_key_of c priv) s)) = Inr m"
    using mode unfolding H(4) by auto
  from authenticI [OF H(1) ck H(5) [OF ikm keys] framed_plain_blocks [of p], of tr] tr
  show ?thesis
    unfolding H(2,3) concat_plain_blocks wire_message_def Let_def append_assoc by simp
qed

subsection \<open>The key stages of \<open>run_encrypt\<close>\<close>

text \<open>They keep the standard streams.\<close>

definition streams :: "world \<Rightarrow> reader \<times> bytes \<times> nat option \<times> io_error option" where
  "streams w = (w_stdin w, w_stdout w, w_room w, w_flush_err w)"

lemma streams_iff:
  "streams w' = streams w \<longleftrightarrow> w_stdin w' = w_stdin w \<and> w_stdout w' = w_stdout w \<and>
     w_room w' = w_room w \<and> w_flush_err w' = w_flush_err w"
  by (simp add: streams_def)

lemma keeps_streams_intake: "keeps intake_view m \<Longrightarrow> keeps streams m"
proof (erule keeps_via)
  fix v w assume "intake_view v = intake_view w"
  from intake_view_fields(1,2,8,9) [OF this] show "streams v = streams w" by (simp only: streams_iff)
qed

lemma keeps_streams_random [quiet_rules]: "keeps streams (os_random n)"
  by (simp add: keeps_def os_random_def streams_def)

lemma keeps_map_io_err [quiet_rules]: "keeps f m \<Longrightarrow> keeps f (map_io_err g m)"
  by (auto simp: keeps_def map_io_err_def split: prod.splits dest: sym) (metis snd_conv)

lemma keeps_ephemeral_secret: "keeps streams (ephemeral_secret c efd)"
  unfolding ephemeral_secret_def
  by (intro quiet_rules keeps_streams_intake [OF keeps_cloexec(1)] keeps_streams_intake [OF keeps_close(1)])

lemma keeps_sender_intake: "keeps streams (sender_intake c m args)"
  unfolding sender_intake_def
  by (intro quiet_rules keeps_streams_intake [OF keeps_load_secret_key])

text \<open>A successful encryption has gone through each of its stages.\<close>

lemma run_encrypt_OkE:
  assumes "run_encrypt c recip m args efd w = (Ok u, w')"
  obtains r e w1 s w2 sender w3 ikm hk pk where
    "parse_key_bytes c recip = Inr r" and "ephemeral_secret c efd w = (Ok e, w1)"
    and "signing_key c e = Inr ()" and "os_random 11 w1 = (Ok s, w2)"
    and "sender_intake c m args w2 = (Ok sender, w3)" and "ecdh_shared_x c e r = Inr ikm"
    and "derive_keys c ikm s = Inr (hk, pk)" and "streams w3 = streams w"
    and "encrypt_stream c m (verifying_key_of c e) r s sender hk pk w3 = (Ok u, w')"
proof -
  obtain r e w1 s w2 sender w3 ikm hk pk where st:
    "parse_key_bytes c recip = Inr r" "ephemeral_secret c efd w = (Ok e, w1)"
    "signing_key c e = Inr ()" "os_random 11 w1 = (Ok s, w2)"
    "sender_intake c m args w2 = (Ok sender, w3)" "ecdh_shared_x c e r = Inr ikm"
    "derive_keys c ikm s = Inr (hk, pk)"
    "encrypt_stream c m (verifying_key_of c e) r s sender hk pk w3 = (Ok u, w')"
    using assms unfolding run_encrypt_def Let_def
    by (elim io_bind_OkE io_try_OkE) (auto split: prod.splits)
  have "streams w3 = streams w"
    using keepsD [OF keeps_ephemeral_secret st(2)] keepsD [OF keeps_streams_random st(4)]
      keepsD [OF keeps_sender_intake st(5)] by simp
  with st that show ?thesis by blast
qed

lemma ecdh_key_length: "ecdh_laws c \<Longrightarrow> signing_key c k = Inr () \<Longrightarrow> length (verifying_key_of c k) = 32"
  unfolding ecdh_laws_def by blast

text \<open>What a successful encryption wrote, for a recipient whose secret key is \<open>priv\<close>.\<close>

lemma run_encrypt_message:
  assumes laws: "digest_laws c" "aead_laws c" "ecdh_laws c" "schnorr_laws c"
    and run: "run_encrypt c recip m args efd w = (Ok u, w')"
    and recip: "parse_key_bytes c recip = Inr (verifying_key_of c priv)" "signing_key c priv = Inr ()"
    and w: "live (w_stdin w)" "w_room w = None" "w_flush_err w = None"
    and p: "p = rd_bytes (w_stdin w)" "length p + 1 < 2 ^ 64"
  obtains e s ikm hk pk sender tr v v' where
    "signing_key c e = Inr ()" and "length s = 11"
    and "ecdh_shared_x c priv (verifying_key_of c e) = Inr ikm" and "derive_keys c ikm s = Inr (hk, pk)"
    and "v = snd (os_random 11 (snd (ephemeral_secret c efd w)))"
    and "sender_intake c m args v = (Ok sender, v')"
    and "sender_trailer c sender (compute_header_hmac c hk
          (header_prefix m (verifying_key_of c e) (verifying_key_of c priv) s)) p = Inr tr"
    and "w_stdout w' = w_stdout w @
      wire_message c m (verifying_key_of c e) (verifying_key_of c priv) s hk pk p tr"
proof (rule run_encrypt_OkE [OF run])
  fix r e w1 s w2 sender w3 ikm hk pk
  assume st: "parse_key_bytes c recip = Inr r" "ephemeral_secret c efd w = (Ok e, w1)"
    "signing_key c e = Inr ()" "os_random 11 w1 = (Ok s, w2)"
    "sender_intake c m args w2 = (Ok sender, w3)" "ecdh_shared_x c e r = Inr ikm"
    "derive_keys c ikm s = Inr (hk, pk)" "streams w3 = streams w"
    "encrypt_stream c m (verifying_key_of c e) r s sender hk pk w3 = (Ok u, w')"
  have r: "r = verifying_key_of c priv" using st(1) recip(1) by simp
  have len: "length (verifying_key_of c e) = 32" "length r = 32" "length s = 11" "length pk = 32"
    using ecdh_key_length [OF laws(3)] st(3) recip(2) r length_os_random [OF st(4)]
      derive_keys_ok [OF laws(1), of ikm s] st(7) by auto
  have ikm: "ecdh_shared_x c priv (verifying_key_of c e) = Inr ikm"
    using ecdh_agreement [OF laws(3) st(3) recip(2)] st(6) r by auto
  have w3: "live (w_stdin w3)" "w_room w3 = None" "w_flush_err w3 = None" "p = rd_bytes (w_stdin w3)"
    "w_stdout w3 = w_stdout w"
    using st(8) w p(1) by (simp_all add: streams_iff)
  let ?hm = "compute_header_hmac c hk (header_prefix m (verifying_key_of c e) r s)"
  have snd: "m = 0x01 \<or> sender = None" "\<And>k. sender = Some k \<Longrightarrow> signing_key c k = Inr ()"
    using st(5) by (auto simp: sender_intake_def elim!: io_bind_OkE io_try_OkE split: if_splits)
  have "\<exists>tr. sender_trailer c sender ?hm p = Inr tr"
  proof (cases sender)
    case (Some k)
    obtain sig where "sign_raw c k (auth_hash c ?hm p) (replicate 32 0) = Inr sig"
      using schnorr_sign_ok [OF laws(4) snd(2) [OF Some], of "auth_hash c ?hm p" "replicate 32 0"]
        auth_hash_length [OF laws(1)] by (metis length_replicate)
    with Some show ?thesis by (simp add: sender_trailer_def)
  qed (simp add: sender_trailer_def)
  then obtain tr where tr: "sender_trailer c sender ?hm p = Inr tr" by blast
  from encrypt_stream_room [OF laws(1,2) len w3(1-3) w3(4) p(2) snd(1) tr] st(9) w3(5)
  have "w_stdout w' = w_stdout w @ wire_message c m (verifying_key_of c e) r s hk pk p tr" by auto
  have "w2 = snd (os_random 11 (snd (ephemeral_secret c efd w)))" using st(2,4) by simp
  with that [OF st(3) len(3) ikm st(7) _ st(5) tr [unfolded r]] \<open>w_stdout w' = _\<close>
  show ?thesis unfolding r by blast
qed

text \<open>
  So it is authentic: in mode 2 for a receiver that names no sender, in mode 1 for one that
  names the sender's key or allows any.
\<close>

lemma run_encrypt_authentic:
  assumes laws: "digest_laws c" "aead_laws c" "ecdh_laws c" "schnorr_laws c" "codec_laws c"
    and run: "run_encrypt c recip m args efd w = (Ok u, w')"
    and recip: "parse_key_bytes c recip = Inr (verifying_key_of c priv)" "signing_key c priv = Inr ()"
    and w: "live (w_stdin w)" "w_room w = None" "w_flush_err w = None"
    and p: "p = rd_bytes (w_stdin w)" "length p + 1 < 2 ^ 64"
    and mode: "(m = 0x02 \<and> es = None) \<or> (m = 0x01 \<and> (es \<noteq> None \<or> au) \<and>
      load_secret_key c args (snd (os_random 11 (snd (ephemeral_secret c efd w)))) = (Ok sk, u') \<and>
      (\<forall>txt. es = Some txt \<longrightarrow> parse_key_bytes c txt = Inr (verifying_key_of c sk)))"
    and out: "w_stdout w' = w_stdout w @ msg"
  shows "authentic c priv es au msg p"
proof (rule run_encrypt_message [OF laws(1-4) run recip w p])
  fix e s ikm hk pk sender tr v v'
  assume e: "signing_key c e = Inr ()" and s: "length s = 11"
    and ikm: "ecdh_shared_x c priv (verifying_key_of c e) = Inr ikm"
    and keys: "derive_keys c ikm s = Inr (hk, pk)"
    and v: "v = snd (os_random 11 (snd (ephemeral_secret c efd w)))"
    and se: "sender_intake c m args v = (Ok sender, v')"
    and tr: "sender_trailer c sender (compute_header_hmac c hk
          (header_prefix m (verifying_key_of c e) (verifying_key_of c priv) s)) p = Inr tr"
    and msg: "w_stdout w' = w_stdout w @
      wire_message c m (verifying_key_of c e) (verifying_key_of c priv) s hk pk p tr"
  have "authentic_trailer c es m (compute_header_hmac c hk
          (header_prefix m (verifying_key_of c e) (verifying_key_of c priv) s)) p tr"
  proof (cases "m = 0x02")
    case True
    with se tr show ?thesis by (simp add: sender_intake_def sender_trailer_def authentic_trailer_def)
  next
    case False
    with mode have m: "m = 0x01" "load_secret_key c args v = (Ok sk, u')"
      "\<forall>txt. es = Some txt \<longrightarrow> parse_key_bytes c txt = Inr (verifying_key_of c sk)" by (simp_all add: v)
    with se have sk: "sender = Some sk" "signing_key c sk = Inr ()"
      by (auto simp: sender_intake_def map_io_err_def elim!: io_bind_OkE io_try_OkE)
    from m(3) have "es = None \<or> (\<exists>txt. es = Some txt \<and> parse_key_bytes c txt = Inr (verifying_key_of c sk))"
      by (cases es) auto
    from sender_trailer_authentic [OF laws(4,5,1) sk(2) this] obtain tr' where
      "sender_trailer c (Some sk) (compute_header_hmac c hk
          (header_prefix m (verifying_key_of c e) (verifying_key_of c priv) s)) p = Inr tr'"
      "authentic_trailer c es 0x01 (compute_header_hmac c hk
          (header_prefix m (verifying_key_of c e) (verifying_key_of c priv) s)) p tr'" by blast
    with tr sk(1) m(1) show ?thesis by simp
  qed
  then have "authentic c priv es au
      (wire_message c m (verifying_key_of c e) (verifying_key_of c priv) s hk pk p tr) p"
    using wire_message_authentic [OF laws(1) ecdh_key_length [OF laws(3) e]
        ecdh_key_length [OF laws(3) recip(2)] s ikm keys, of m es au] mode by blast
  with msg out show ?thesis by simp
qed


subsection \<open>An authentic input has one plaintext, shorter than itself\<close>

lemma wire_chunk_inj:
  assumes "aead_laws c" and "length k = 32" and "length b \<le> CHUNK_SIZE" and "length b' \<le> CHUNK_SIZE"
    and eq: "wire_chunk c k r m i t b @ rest = wire_chunk c k r m i t' b' @ rest'"
  shows "t = t' \<and> b = b' \<and> rest = rest'"
proof -
  let ?open = "\<lambda>t n ct tag. aead_open c k (build_nonce i t)
    (build_aad MAGIC_HEADER 0x01 m r (of_nat n) i t) ct tag"
  obtain ct tag where w1: "wire_chunk c k r m i t b = be32 (of_nat (length b)) @ [t] @ ct @ tag"
    "length ct = length b" "length tag = TAG_SIZE" "?open t (length b) ct tag = Inr b"
    by (rule wire_chunk_ok [OF assms(1,2,3)])
  obtain ct' tag' where w2: "wire_chunk c k r m i t' b' = be32 (of_nat (length b')) @ [t'] @ ct' @ tag'"
    "length ct' = length b'" "length tag' = TAG_SIZE" "?open t' (length b') ct' tag' = Inr b'"
    by (rule wire_chunk_ok [OF assms(1,2,4)])
  from eq w1(1) w2(1) have h: "be32 (of_nat (length b)) = be32 (of_nat (length b'))"
    "t # ct @ tag @ rest = t' # ct' @ tag' @ rest'" by simp_all
  have "unat (of_nat (length b) :: u32) = length b" "unat (of_nat (length b') :: u32) = length b'"
    using assms(3,4) by (simp_all add: CHUNK_SIZE_def unat_of_nat)
  with h(1) have "length b = length b'" by (metis be32_inject)
  with h(2) w1 w2 show ?thesis by (metis Inr_inject append_eq_append_conv list.inject)
qed

lemma wire_stream_inj:
  assumes "aead_laws c" and "length k = 32"
  shows "framed bs \<Longrightarrow> framed bs' \<Longrightarrow>
     wire_stream c k r m i bs @ tr = wire_stream c k r m i bs' @ tr' \<Longrightarrow> bs = bs' \<and> tr = tr'"
proof (induction bs arbitrary: i bs')
  case Nil
  then show ?case by (simp add: framed_def)
next
  case (Cons b bs)
  obtain b' cs where bs': "bs' = b' # cs" using Cons.prems(2) by (cases bs') (auto simp: framed_def)
  have len: "length b \<le> CHUNK_SIZE" "length b' \<le> CHUNK_SIZE"
    using Cons.prems(1,2) bs' by (cases bs; cases cs; auto simp: framed_def)+
  note inj = wire_chunk_inj [OF assms len]
  show ?case
  proof (cases "bs = []"; cases "cs = []")
    assume "bs = []" "cs = []"
    with Cons.prems(3) bs' have "wire_chunk c k r m i 0x01 b @ tr = wire_chunk c k r m i 0x01 b' @ tr'" by simp
    with inj \<open>bs = []\<close> \<open>cs = []\<close> bs' show ?thesis by blast
  next
    assume a: "bs = []" "cs \<noteq> []"
    with Cons.prems(3) bs' have "wire_chunk c k r m i 0x01 b @ tr =
      wire_chunk c k r m i 0x00 b' @ wire_stream c k r m (i + 1) cs @ tr'"
      by (simp add: wire_stream_cons)
    with inj have "(0x01 :: u8) = 0x00" by blast
    then show ?thesis by simp
  next
    assume a: "bs \<noteq> []" "cs = []"
    with Cons.prems(3) bs' have "wire_chunk c k r m i 0x00 b @ wire_stream c k r m (i + 1) bs @ tr =
      wire_chunk c k r m i 0x01 b' @ tr'"
      by (simp add: wire_stream_cons)
    with inj have "(0x00 :: u8) = 0x01" by blast
    then show ?thesis by simp
  next
    assume a: "bs \<noteq> []" "cs \<noteq> []"
    with Cons.prems(3) bs' have "wire_chunk c k r m i 0x00 b @ wire_stream c k r m (i + 1) bs @ tr =
      wire_chunk c k r m i 0x00 b' @ wire_stream c k r m (i + 1) cs @ tr'"
      by (simp add: wire_stream_cons)
    with inj have "b = b'" "wire_stream c k r m (i + 1) bs @ tr = wire_stream c k r m (i + 1) cs @ tr'"
      by blast+
    with Cons.IH [of cs "i + 1"] Cons.prems(1,2) a bs' show ?thesis by (simp add: framed_Cons)
  qed
qed

lemma authentic_same:
  assumes "digest_laws c" and "aead_laws c" and "authentic c priv es au msg p" and "authentic c priv es' au' msg p'"
  shows "p = p'"
proof -
  from assms(3) obtain hdr mode pk bs tr where 1: "length hdr = WIRE_HEADER_SIZE"
    "check_header (es \<noteq> None) au (verifying_key_of c priv) hdr = Inr mode"
    "header_payload_key c priv hdr = Inr pk" "framed bs" "p = concat bs"
    "msg = hdr @ wire_stream c pk (slice hdr 38 70) mode 0 bs @ tr" unfolding authentic_def by blast
  from assms(4) obtain hdr' mode' pk' bs' tr' where 2: "length hdr' = WIRE_HEADER_SIZE"
    "check_header (es' \<noteq> None) au' (verifying_key_of c priv) hdr' = Inr mode'"
    "header_payload_key c priv hdr' = Inr pk'" "framed bs'" "p' = concat bs'"
    "msg = hdr' @ wire_stream c pk' (slice hdr' 38 70) mode' 0 bs' @ tr'" unfolding authentic_def by blast
  from 1 2 have h: "hdr' = hdr" by (metis append_eq_append_conv)
  have "mode = hdr ! 5" "mode' = hdr' ! 5"
    using 1(2) 2(2) by (auto simp: check_header_def Let_def split: if_splits)
  with h have m: "mode' = mode" by simp
  have k: "pk' = pk" using 1(3) 2(3) h by simp
  have "wire_stream c pk (slice hdr 38 70) mode 0 bs @ tr = wire_stream c pk (slice hdr 38 70) mode 0 bs' @ tr'"
    using 1(6) 2(6) unfolding h m k by simp
  from wire_stream_inj [OF assms(2) header_payload_key_length [OF assms(1) 1(3)] 1(4) 2(4) this] 1(5) 2(5)
  show ?thesis by simp
qed

lemma wire_stream_length:
  assumes "aead_laws c" and "length k = 32"
  shows "framed bs \<Longrightarrow> length (concat bs) < length (wire_stream c k r m i bs)"
proof (induction bs arbitrary: i)
  case Nil
  then show ?case by (simp add: framed_def)
next
  case (Cons b bs)
  have "length b \<le> CHUNK_SIZE" using Cons.prems by (cases bs) (auto simp: framed_def)
  then have chunk: "length b < length (wire_chunk c k r m i t b)" for t
    by (rule wire_chunk_ok [OF assms, of b i t m r]) (simp_all add: TAG_SIZE_def)
  show ?case
  proof (cases "bs = []")
    case True
    with chunk show ?thesis by simp
  next
    case False
    with Cons.prems have "framed bs" by (simp add: framed_Cons)
    from Cons.IH [OF this] chunk False show ?thesis
      by (simp add: wire_stream_cons add_less_mono)
  qed
qed

lemma authentic_length:
  assumes "digest_laws c" and "aead_laws c" and "authentic c priv es au msg p"
  shows "length p + WIRE_HEADER_SIZE < length msg"
proof -
  from assms(3) obtain hdr mode pk bs tr where 1: "length hdr = WIRE_HEADER_SIZE"
    "header_payload_key c priv hdr = Inr pk" "framed bs" "p = concat bs"
    "msg = hdr @ wire_stream c pk (slice hdr 38 70) mode 0 bs @ tr" unfolding authentic_def by blast
  from wire_stream_length [OF assms(2) header_payload_key_length [OF assms(1) 1(2)] 1(3)] 1
  show ?thesis by (simp add: trans_less_add1)
qed


lemma wire_stream_upper:
  assumes "aead_laws c" and "length k = 32"
  shows "framed bs \<Longrightarrow> length (wire_stream c k r m i bs) \<le> 22 * (length (concat bs) + 1)"
proof (induction bs arbitrary: i)
  case Nil
  then show ?case by (simp add: framed_def)
next
  case (Cons b bs)
  have "length b \<le> CHUNK_SIZE" using Cons.prems by (cases bs) (auto simp: framed_def)
  then have chunk: "length (wire_chunk c k r m i t b) = length b + 21" for t
    by (rule wire_chunk_ok [OF assms, of b i t m r]) (simp_all add: TAG_SIZE_def)
  show ?case
  proof (cases "bs = []")
    case True
    with chunk show ?thesis by simp
  next
    case False
    with Cons.prems have "framed bs" "length b = CHUNK_SIZE" by (simp_all add: framed_Cons)
    with Cons.IH [of "i + 1"] chunk False show ?thesis
      by (simp add: wire_stream_cons CHUNK_SIZE_def)
  qed
qed

lemma authentic_upper:
  assumes "digest_laws c" and "aead_laws c" and "authentic c priv es au msg p"
  shows "length msg \<le> 22 * length p + 215"
proof -
  from assms(3) obtain hdr mode pk bs tr where 1: "length hdr = WIRE_HEADER_SIZE"
    "header_payload_key c priv hdr = Inr pk" "framed bs" "p = concat bs"
    "authentic_trailer c es mode (slice hdr 81 97) p tr"
    "msg = hdr @ wire_stream c pk (slice hdr 38 70) mode 0 bs @ tr" unfolding authentic_def by blast
  have "length tr \<le> TRAILER_SIZE" using 1(5) by (auto simp: authentic_trailer_def split: if_splits)
  with wire_stream_upper [OF assms(2) header_payload_key_length [OF assms(1) 1(2)] 1(3),
      of "slice hdr 38 70" mode 0] 1(1,4,6)
  show ?thesis by (simp add: WIRE_HEADER_SIZE_def TRAILER_SIZE_def)
qed


subsection \<open>An encryption that writes has all its keys\<close>

text \<open>A stage that keeps standard output and is followed by a change of it has succeeded.\<close>

definition changes :: "'a io \<Rightarrow> world \<Rightarrow> world \<Rightarrow> bool" where
  "changes m w w' \<longleftrightarrow> snd (m w) = w' \<and> w_stdout w' \<noteq> w_stdout w"

lemma changes_bindE:
  assumes "keeps w_stdout m" and "changes (io_bind m f) w w'"
  obtains x v where "m w = (Ok x, v)" and "changes (f x) v w'"
proof -
  obtain q v where q: "m w = (q, v)" by fastforce
  have "w_stdout v = w_stdout w" using keepsD [OF assms(1) q] .
  with q assms(2) that show ?thesis by (cases q) (auto simp: changes_def io_bind_def)
qed

lemma changes_tryE:
  assumes "changes (io_bind (io_try g r) f) w w'"
  obtains x where "r = Inr x" and "changes (f x) w w'"
  using assms by (cases r) (auto simp: changes_def)

lemma keeps_stdout_streams: "keeps streams m \<Longrightarrow> keeps w_stdout m"
  by (simp add: keeps_def streams_iff)

lemmas encrypt_changesE =
  changes_tryE
  changes_bindE [OF keeps_stdout_streams [OF keeps_ephemeral_secret]]
  changes_bindE [OF keeps_stdout_streams [OF keeps_streams_random]]
  changes_bindE [OF keeps_stdout_streams [OF keeps_sender_intake]]

lemma run_encrypt_writes:
  assumes "changes (run_encrypt c recip m args efd) w w'"
  obtains rx e w1 s w2 sender w3 ikm hk pk where
    "parse_key_bytes c recip = Inr rx" and "ephemeral_secret c efd w = (Ok e, w1)"
    and "signing_key c e = Inr ()" and "os_random 11 w1 = (Ok s, w2)"
    and "sender_intake c m args w2 = (Ok sender, w3)" and "ecdh_shared_x c e rx = Inr ikm"
    and "derive_keys c ikm s = Inr (hk, pk)"
  using assms unfolding run_encrypt_def Let_def
  by (elim encrypt_changesE) (auto split: prod.splits)

end
