(* ===== verification/Samples.thy ===== *)
theory Samples
  imports Decrypt Demo
begin

text \<open>
  Concrete runs for the witnesses: a key file and a standard input on the crates' instance
  \<open>demo\<close>, and what the program's key stages return there.
\<close>

definition sample_secret :: bytes where
  "sample_secret = replicate 32 7"

definition sample_args :: key_intake_args where
  "sample_args = \<lparr> sec_fd = None, sec_file = Some ''key'', mnemonic_fd = None, passphrase_fd = None,
     bip85_identity = None, bip85_index = None \<rparr>"

definition sample_recipient :: string where
  "sample_recipient = hex_encode demo (verifying_key_of demo sample_secret)"

text \<open>Every file holds the secret key in hexadecimal.\<close>

definition sample_world :: "reader \<Rightarrow> world" where
  "sample_world input =
     demo_world\<lparr>w_stdin := input, w_files := (\<lambda>_. Inr (str_bytes (hex_encode demo sample_secret)))\<rparr>"

lemma sample_world_fields [simp]:
  "w_stdin (sample_world rs) = rs" "w_stdout (sample_world rs) = []" "w_room (sample_world rs) = None"
  "w_flush_err (sample_world rs) = None" "faithful (sample_world rs)"
  "w_environ (sample_world rs) = []" "w_disk_view (sample_world rs) = (\<lambda>d. [Data d])"
  by (simp_all add: sample_world_def demo_world_def faithful_def)

lemma sample_keys [simp]:
  "signing_key demo sample_secret = Inr ()" "length (verifying_key_of demo sample_secret) = 32"
  by (simp_all add: sample_secret_def demo_def demo_key_def xor1_def)

lemma demo_hex_utf8: "utf8_valid (str_bytes (demo_hex bs))"
  by (rule utf8_valid_str) (use demo_hex_chars [of bs] in \<open>auto simp: list_all_iff hex_char_def\<close>)

lemma sample_parse:
  "parse_key_bytes demo (hex_encode demo sample_secret) = Inr sample_secret"
  "parse_key_bytes demo sample_recipient = Inr (verifying_key_of demo sample_secret)"
  unfolding sample_recipient_def
  by (rule parse_key_hex [OF demo_codec]; simp add: sample_secret_def demo_def xor1_def)+

lemma load_sample_file:
  assumes "w_files w = (\<lambda>_. Inr (str_bytes (hex_encode demo sample_secret)))"
  shows "load_secret_key demo sample_args w = (Ok sample_secret, scrubbed w)"
proof -
  have "hex_encode demo bs = demo_hex bs" for bs by (simp add: demo_def)
  with assms have "fs_read_to_string ''key'' (scrubbed w) =
      (Ok (Inr (hex_encode demo sample_secret)), scrubbed w)"
    by (simp add: fs_read_to_string_def scrubbed_def from_utf8_def demo_hex_utf8)
  then show ?thesis
    by (simp add: load_secret_key_run load_from_def sample_args_def io_bind_def parse_key_def sample_parse)
qed

lemma sample_load:
  "load_secret_key demo sample_args (sample_world rs) = (Ok sample_secret, scrubbed (sample_world rs))"
  by (rule load_sample_file) (simp add: sample_world_def)

text \<open>The ephemeral secret and the salt that the random source of \<open>demo_world\<close> gives.\<close>

definition sample_ephemeral :: bytes where
  "sample_ephemeral = map (\<lambda>i. of_nat (i + 1)) [0..<32]"

lemma sample_ephemeral_ok [simp]:
  "signing_key demo sample_ephemeral = Inr ()" "length (verifying_key_of demo sample_ephemeral) = 32"
proof -
  have "sample_ephemeral ! 0 \<noteq> replicate 32 (0 :: u8) ! 0" by (simp add: sample_ephemeral_def)
  then have "sample_ephemeral \<noteq> replicate 32 0" by metis
  then show "signing_key demo sample_ephemeral = Inr ()"
    by (simp add: demo_def demo_key_def sample_ephemeral_def)
qed (simp add: demo_def xor1_def sample_ephemeral_def)

lemma sample_encrypt:
  assumes "live rs" and "length (rd_bytes rs) + 1 < 2 ^ 64"
  shows "\<exists>w'. run_encrypt demo sample_recipient m sample_args None (sample_world rs) = (Ok (), w')"
proof -
  let ?w1 = "sample_world rs\<lparr>w_rng_pos := 32\<rparr>"
  have rng: "w_rng (sample_world rs) = (\<lambda>i. of_nat (i + 1))" "w_rng_pos (sample_world rs) = 0"
    by (simp_all add: sample_world_def demo_world_def)
  have e: "ephemeral_secret demo None (sample_world rs) = (Ok sample_ephemeral, ?w1)"
    by (simp add: ephemeral_secret_def io_bind_def os_random_def rng sample_ephemeral_def)
  obtain s w2 where s: "os_random 11 ?w1 = (Ok s, w2)" and w2: "w2 = sample_world rs\<lparr>w_rng_pos := 43\<rparr>"
    by (simp add: os_random_def)
  have load: "load_secret_key demo sample_args w2 = (Ok sample_secret, scrubbed w2)"
    by (rule load_sample_file) (simp add: w2 sample_world_def)
  obtain sender w3 where se: "sender_intake demo m sample_args w2 = (Ok sender, w3)"
    and sk: "sender = None \<or> sender = Some sample_secret"
    using load by (cases "m = 0x01") (auto simp: sender_intake_def io_bind_def map_io_err_def)
  have "streams w3 = streams (sample_world rs)"
    using keepsD [OF keeps_sender_intake se] by (simp add: w2 streams_def)
  then have w3: "live (w_stdin w3)" "w_room w3 = None" "w_flush_err w3 = None"
    "length (rd_bytes (w_stdin w3)) + 1 < 2 ^ 64"
    using assms by (simp_all add: streams_iff)
  obtain ikm where ikm: "ecdh_shared_x demo sample_ephemeral (verifying_key_of demo sample_secret) = Inr ikm"
    using ecdh_agreement [OF demo_ecdh sample_ephemeral_ok(1) sample_keys(1)] by blast
  obtain hk pk where keys: "derive_keys demo ikm s = Inr (hk, pk)" "length pk = 32"
    using derive_keys_ok [OF demo_digest] by blast
  have "\<exists>tr. sender_trailer demo sender h p = Inr tr" for h p
    using sk by (auto simp: sender_trailer_def demo_def)
  then obtain tr where tr: "sender_trailer demo sender (compute_header_hmac demo hk
      (header_prefix m (verifying_key_of demo sample_ephemeral) (verifying_key_of demo sample_secret) s))
      (rd_bytes (w_stdin w3)) = Inr tr" by blast
  from run_encrypt_room [OF demo_digest demo_aead sample_parse(2) e sample_ephemeral_ok s se ikm keys
      w3(1-3) refl w3(4) tr]
  show ?thesis by blast
qed

text \<open>
  What the sample encryption writes is authentic for the sample receiver, and decrypts.
\<close>

definition sample_mode :: "u8 \<Rightarrow> string option \<Rightarrow> bool \<Rightarrow> bool" where
  "sample_mode m es au \<longleftrightarrow>
     (m = 0x02 \<and> es = None) \<or> (m = 0x01 \<and> (es = Some sample_recipient \<or> (es = None \<and> au)))"

lemma sample_sender_load:
  "\<exists>u. load_secret_key demo sample_args
      (snd (os_random 11 (snd (ephemeral_secret demo None (sample_world rs))))) = (Ok sample_secret, u)"
  using load_sample_file [of "snd (os_random 11 (snd (ephemeral_secret demo None (sample_world rs))))"]
  by (simp add: ephemeral_secret_def io_bind_def os_random_def sample_world_def)

lemma sample_message:
  assumes "live rs" and "sample_mode m es au" and "length (rd_bytes rs) + 1 < 2 ^ 64"
  obtains w' where "run_encrypt demo sample_recipient m sample_args None (sample_world rs) = (Ok (), w')"
    and "authentic demo sample_secret es au (w_stdout w') (rd_bytes rs)" and "w_stdout w' \<noteq> []"
    and "length (w_stdout w') \<le> 22 * length (rd_bytes rs) + 215"
proof -
  obtain w' where run: "run_encrypt demo sample_recipient m sample_args None (sample_world rs) = (Ok (), w')"
    using sample_encrypt [OF assms(1,3)] by blast
  obtain v' where load: "load_secret_key demo sample_args
      (snd (os_random 11 (snd (ephemeral_secret demo None (sample_world rs))))) = (Ok sample_secret, v')"
    using sample_sender_load by blast
  have au: "authentic demo sample_secret es au (w_stdout w') (rd_bytes rs)"
    by (rule run_encrypt_authentic [OF demo_digest demo_aead demo_ecdh demo_schnorr demo_codec run
          sample_parse(2) sample_keys(1), where sk = sample_secret and u' = v'])
      (use assms load in \<open>auto simp: sample_mode_def sample_parse(2)\<close>)
  then have "w_stdout w' \<noteq> []"
    using authentic_length [OF demo_digest demo_aead au] by auto
  with run au authentic_upper [OF demo_digest demo_aead au] that show ?thesis by blast
qed

lemma sample_decrypt:
  assumes "authentic demo sample_secret es au msg p" and "msg \<noteq> []" and "length p < 2 ^ 64"
  obtains v' where "run_decrypt demo es au False None sample_args (sample_world [Data msg]) = (Ok (), v')"
    and "w_stdout v' = p"
proof -
  have "smooth (w_stdin (sample_world [Data msg]))" using assms(2) by simp
  from run_decrypt_complete [OF demo_digest demo_aead sample_load sample_keys(1) _ assms(3) this, of es au]
    assms(1) that show ?thesis by auto
qed

end
