(* ===== verification/Signature.thy ===== *)
theory Signature
  imports Samples
begin

text \<open>
  Detached signatures (\<open>rust/src/main.rs\<close>): \<open>sign_stream_payload\<close>, \<open>verify_stream_payload\<close>, the
  ASCII armor, and the bodies of the commands \<open>sign\<close> and \<open>verify\<close> after their arguments are
  parsed. \<open>signed_by\<close> is what a payload proves; the lemmas show that verification accepts
  exactly the payloads that prove it and that \<open>verify\<close> releases nothing it has not verified.
\<close>

subsection \<open>The payload\<close>

definition ts_and_digest :: "u32 \<Rightarrow> bytes \<Rightarrow> bytes" where
  "ts_and_digest timestamp msg_digest =
     blit (blit (replicate 36 0) 0 (be32 timestamp)) 4 msg_digest"

text \<open>\<open>None\<close> is the panic of \<open>expect("signing failed")\<close>.\<close>

definition sign_stream_payload :: "crypto \<Rightarrow> bytes \<Rightarrow> bytes \<Rightarrow> u32 \<Rightarrow> bytes option" where
  "sign_stream_payload c sk msg_digest timestamp =
     (let m_hash = tagged_hash c TAG_SIGN (ts_and_digest timestamp msg_digest)
      in case sign_raw c sk m_hash (replicate 32 0) of
           Inl e \<Rightarrow> None
         | Inr signature \<Rightarrow>
             let payload = replicate SIGNATURE_PAYLOAD_SIZE 0;
                 payload = blit payload 0 MAGIC_SIGNATURE;
                 payload = payload[4 := 0x01];
                 payload = blit payload 5 (be32 timestamp);
                 payload = blit payload 9 (verifying_key_of c sk)
             in Some (blit payload 41 signature))"

definition verify_stream_payload :: "crypto \<Rightarrow> bytes \<Rightarrow> bytes \<Rightarrow> string + bytes" where
  "verify_stream_payload c payload msg_digest =
     (if slice payload 0 4 \<noteq> MAGIC_SIGNATURE then Inl ''Invalid magic bytes in signature payload''
      else if payload ! 4 \<noteq> 0x01 then Inl ''Unsupported signature version''
      else
        let timestamp = from_be (slice payload 5 9) :: u32;
            td = ts_and_digest timestamp msg_digest;
            pk_x = slice payload 9 41;
            sig_bytes = slice payload 41 105
        in case verifying_key c pk_x of
             Inl e \<Rightarrow> Inl (''Invalid public key: '' @ e)
           | Inr _ \<Rightarrow>
               (case signature_parse c sig_bytes of
                  Inl e \<Rightarrow> Inl (''Invalid signature format: '' @ e)
                | Inr _ \<Rightarrow>
                    (case verify_raw c pk_x (tagged_hash c TAG_SIGN td) sig_bytes of
                       Inr _ \<Rightarrow> Inr pk_x
                     | Inl e1 \<Rightarrow>
                         (case verify_raw c pk_x (tagged_hash c TAG_SIGN_LEGACY td) sig_bytes of
                            Inl _ \<Rightarrow> Inl (''Schnorr verification failed: '' @ e1)
                          | Inr _ \<Rightarrow> Inr pk_x))))"

text \<open>A payload as its fields, and what it proves about a digest.\<close>

definition payload_of :: "u32 \<Rightarrow> bytes \<Rightarrow> bytes \<Rightarrow> bytes" where
  "payload_of timestamp pk_x sig = MAGIC_SIGNATURE @ [0x01] @ be32 timestamp @ pk_x @ sig"

definition signed_by :: "crypto \<Rightarrow> bytes \<Rightarrow> bytes \<Rightarrow> bytes \<Rightarrow> bool" where
  "signed_by c payload msg_digest pk_x \<longleftrightarrow>
     (\<exists>timestamp sig. payload = payload_of timestamp pk_x sig \<and> length pk_x = 32 \<and> length sig = 64 \<and>
        verifying_key c pk_x = Inr () \<and> signature_parse c sig = Inr () \<and>
        (\<exists>tag \<in> {TAG_SIGN, TAG_SIGN_LEGACY}.
           verify_raw c pk_x (tagged_hash c tag (be32 timestamp @ msg_digest)) sig = Inr ()))"

lemma ts_and_digest_layout: "length d = 32 \<Longrightarrow> ts_and_digest t d = be32 t @ d"
proof -
  assume d: "length d = 32"
  have "replicate 36 (0 :: u8) = replicate 4 0 @ replicate 32 0"
    by (simp flip: replicate_add)
  with d show ?thesis by (simp add: ts_and_digest_def blit_def)
qed

lemma length_payload_of [simp, len_simps]:
  "length pk = 32 \<Longrightarrow> length sig = 64 \<Longrightarrow> length (payload_of t pk sig) = SIGNATURE_PAYLOAD_SIZE"
  by (simp add: payload_of_def SIGNATURE_PAYLOAD_SIZE_def)

lemma payload_fields:
  assumes "length pk = 32" and "length sig = 64"
  shows "slice (payload_of t pk sig) 0 4 = MAGIC_SIGNATURE"
    and "payload_of t pk sig ! 4 = 0x01"
    and "slice (payload_of t pk sig) 5 9 = be32 t"
    and "slice (payload_of t pk sig) 9 41 = pk"
    and "slice (payload_of t pk sig) 41 105 = sig"
  using assms by (simp_all add: payload_of_def slice_def nth_append)

lemma payload_of_fields:
  assumes "length pl = SIGNATURE_PAYLOAD_SIZE" and "slice pl 0 4 = MAGIC_SIGNATURE" and "pl ! 4 = 0x01"
  shows "pl = payload_of (from_be (slice pl 5 9)) (slice pl 9 41) (slice pl 41 105)"
proof -
  have len: "length pl = 105" using assms(1) by (simp add: SIGNATURE_PAYLOAD_SIZE_def)
  have v: "slice pl 4 5 = [pl ! 4]"
    using len by (simp add: slice_def take_Suc hd_drop_conv_nth)
  have "pl = slice pl 0 105" using len by simp
  also have "\<dots> = slice pl 0 4 @ slice pl 4 5 @ slice pl 5 9 @ slice pl 9 41 @ slice pl 41 105"
    by (simp add: slice_split [of 0 4 105] slice_split [of 4 5 105] slice_split [of 5 9 105]
        slice_split [of 9 41 105])
  finally show ?thesis
    using assms(2,3) v len by (simp add: payload_of_def be32_from_be)
qed

lemma sign_stream_payload_layout:
  assumes "sign_raw c sk (tagged_hash c TAG_SIGN (be32 t @ d)) (replicate 32 0) = Inr sig"
    and "length (verifying_key_of c sk) = 32" and "length sig = 64" and "length d = 32"
  shows "sign_stream_payload c sk d t = Some (payload_of t (verifying_key_of c sk) sig)"
proof -
  have zeros: "replicate SIGNATURE_PAYLOAD_SIZE (0 :: u8) =
      replicate 4 0 @ [0] @ replicate 4 0 @ replicate 32 0 @ replicate 64 0"
    by (simp add: SIGNATURE_PAYLOAD_SIZE_def flip: replicate_add replicate_Suc)
  show ?thesis
    using assms unfolding sign_stream_payload_def ts_and_digest_layout [OF assms(4)] zeros
    by (simp add: blit_def list_update_append payload_of_def)
qed

lemma verify_stream_payload_iff:
  assumes "length payload = SIGNATURE_PAYLOAD_SIZE" and "length d = 32"
  shows "verify_stream_payload c payload d = Inr pk \<longleftrightarrow> signed_by c payload d pk"
proof
  assume v: "verify_stream_payload c payload d = Inr pk"
  then have m: "slice payload 0 4 = MAGIC_SIGNATURE" "payload ! 4 = 0x01"
    by (auto simp: verify_stream_payload_def split: if_splits)
  have pk: "pk = slice payload 9 41" "verifying_key c pk = Inr ()"
    "signature_parse c (slice payload 41 105) = Inr ()"
    "\<exists>tag \<in> {TAG_SIGN, TAG_SIGN_LEGACY}. verify_raw c pk
       (tagged_hash c tag (be32 (from_be (slice payload 5 9)) @ d)) (slice payload 41 105) = Inr ()"
    using v m by (auto simp: verify_stream_payload_def Let_def ts_and_digest_layout [OF assms(2)]
        split: sum.splits)
  have "payload = payload_of (from_be (slice payload 5 9)) pk (slice payload 41 105)"
    using payload_of_fields [OF assms(1) m] pk(1) by simp
  with pk assms(1) show "signed_by c payload d pk"
    unfolding signed_by_def
    by (intro exI [of _ "from_be (slice payload 5 9)"] exI [of _ "slice payload 41 105"])
      (simp add: SIGNATURE_PAYLOAD_SIZE_def)
next
  assume "signed_by c payload d pk"
  then obtain t sig where p: "payload = payload_of t pk sig" "length pk = 32" "length sig = 64"
    "verifying_key c pk = Inr ()" "signature_parse c sig = Inr ()"
    "\<exists>tag \<in> {TAG_SIGN, TAG_SIGN_LEGACY}. verify_raw c pk (tagged_hash c tag (be32 t @ d)) sig = Inr ()"
    unfolding signed_by_def by blast
  then show "verify_stream_payload c payload d = Inr pk"
    by (auto simp: verify_stream_payload_def Let_def payload_fields ts_and_digest_layout [OF assms(2)]
        split: sum.split)
qed

text \<open>A signature made by \<open>sign_stream_payload\<close> verifies, and proves the signer's key.\<close>

lemma sign_stream_payload_ok:
  assumes "schnorr_laws c" and "digest_laws c" and "signing_key c sk = Inr ()" and "length d = 32"
  obtains payload where "sign_stream_payload c sk d t = Some payload"
    and "length payload = SIGNATURE_PAYLOAD_SIZE" and "signed_by c payload d (verifying_key_of c sk)"
proof -
  let ?m = "tagged_hash c TAG_SIGN (be32 t @ d)"
  obtain sig where sig: "sign_raw c sk ?m (replicate 32 0) = Inr sig" "length sig = 64"
    "signature_parse c sig = Inr ()" "verify_raw c (verifying_key_of c sk) ?m sig = Inr ()"
    "length (verifying_key_of c sk) = 32" "verifying_key c (verifying_key_of c sk) = Inr ()"
    using schnorr_sign_ok [OF assms(1,3), of ?m "replicate 32 0"] length_tagged_hash [OF assms(2)]
    by (metis length_replicate)
  show ?thesis
  proof (rule that [OF sign_stream_payload_layout [OF sig(1,5,2) assms(4)]])
    show "signed_by c (payload_of t (verifying_key_of c sk) sig) d (verifying_key_of c sk)"
      unfolding signed_by_def using sig by blast
  qed (simp add: sig)
qed

subsection \<open>ASCII armor\<close>

definition begin_marker :: "string \<Rightarrow> bool" where
  "begin_marker s \<longleftrightarrow>
     contains s ''BEGIN PGP SIGNATURE'' \<or> contains s ''BEGIN PIPE-K1 SIGNATURE'' \<or>
     contains s ''BEGIN PIPEK1 SIGNATURE''"

definition end_marker :: "string \<Rightarrow> bool" where
  "end_marker s \<longleftrightarrow>
     contains s ''END PGP SIGNATURE'' \<or> contains s ''END PIPE-K1 SIGNATURE'' \<or>
     contains s ''END PIPEK1 SIGNATURE''"

definition armored :: "string \<Rightarrow> bool" where
  "armored s \<longleftrightarrow> contains s ''SIGNATURE'' \<and> begin_marker s"

fun armor_body :: "bool \<Rightarrow> string list \<Rightarrow> string" where
  "armor_body capture [] = []"
| "armor_body capture (line # ls) =
     (let tr = trim line in
      if begin_marker tr then armor_body True ls
      else if end_marker tr then []
      else if capture \<and> tr \<noteq> [] \<and> \<not> contains tr '':'' then tr @ armor_body capture ls
      else armor_body capture ls)"

definition detach_armor :: "crypto \<Rightarrow> bytes \<Rightarrow> pipek1_error + bytes" where
  "detach_armor c sig_raw =
     (case from_utf8 sig_raw of
        None \<Rightarrow> Inr sig_raw
      | Some s \<Rightarrow>
          if armored s then
            (case base64_decode c (armor_body False (lines s)) of
               Inl e \<Rightarrow> Inl (WireCorruption (''Base64 decode error: '' @ e))
             | Inr bs \<Rightarrow> Inr bs)
          else Inr sig_raw)"

text \<open>The four lines \<open>sign --armor\<close> and the git shim print.\<close>

definition armor_lines :: "string \<Rightarrow> string \<Rightarrow> string list" where
  "armor_lines name b64_sig =
     [''-----BEGIN '' @ name @ '' SIGNATURE-----'', [], b64_sig, ''-----END '' @ name @ '' SIGNATURE-----'']"

fun print_lines :: "string list \<Rightarrow> unit io" where
  "print_lines [] = io_return ()"
| "print_lines (l # ls) = io_bind (println l) (\<lambda>_. print_lines ls)"

definition armor_text :: "string list \<Rightarrow> string" where
  "armor_text ls = concat (map (\<lambda>l. l @ [newline]) ls)"

lemma print_lines_room:
  "w_room w = None \<Longrightarrow>
     print_lines ls w = (Ok (), w\<lparr>w_stdout := w_stdout w @ str_bytes (armor_text ls)\<rparr>)"
proof (induction ls arbitrary: w)
  case (Cons l ls)
  then show ?case
    by (simp add: io_bind_def println_room armor_text_def str_bytes_def)
qed (simp add: armor_text_def str_bytes_def)

lemma lines_armor_text:
  "list_all (\<lambda>l. newline \<notin> set l \<and> carriage_return \<notin> set l) ls \<Longrightarrow> lines (armor_text ls) = ls"
proof (induction ls)
  case (Cons l ls)
  then show ?case
    by (simp add: armor_text_def lines_line chop_cr_id)
qed (simp add: armor_text_def)

lemma base64_char_visible: "base64_char ch \<Longrightarrow> visible ch \<and> ch \<noteq> CHR '':'' \<and> ch \<noteq> newline \<and>
    ch \<noteq> carriage_return \<and> ch \<noteq> CHR '' '' \<and> code ch < 128"
  by (auto simp: base64_char_def visible_def newline_def carriage_return_def)

text \<open>Taking the armor off gives the Base64 text back, for both labels the program prints.\<close>

lemma armor_body_printed:
  assumes "name \<in> {''PIPE-K1'', ''PGP''}" and "list_all base64_char b" and "b \<noteq> []"
  shows "armor_body False (armor_lines name b) = b"
proof -
  have nosp: "CHR '' '' \<notin> set b" "CHR '':'' \<notin> set b"
    using assms(2) base64_char_visible by (auto simp: list_all_iff)
  have absent: "\<not> contains b p" if "CHR '' '' \<in> set p \<or> CHR '':'' \<in> set p" for p
    using nosp that contains_char [of b p] by blast
  have "\<not> begin_marker b" "\<not> end_marker b" "\<not> contains b '':''"
    by (simp_all add: begin_marker_def end_marker_def absent)
  moreover have "trim b = b"
    by (rule trim_visible) (use assms(2) base64_char_visible in \<open>auto simp: list_all_iff\<close>)
  moreover have "begin_marker (trim (''-----BEGIN '' @ name @ '' SIGNATURE-----''))"
    "\<not> begin_marker (trim (''-----END '' @ name @ '' SIGNATURE-----''))"
    "end_marker (trim (''-----END '' @ name @ '' SIGNATURE-----''))"
    using assms(1) by (auto simp: trim_no_ws begin_marker_def end_marker_def ws1_def ws2_def ws3_def)
  moreover have "\<not> begin_marker (trim [])" "\<not> end_marker (trim [])" "trim [] = []"
    by (simp_all add: trim_no_ws begin_marker_def end_marker_def)
  ultimately show ?thesis
    using assms(3) by (simp add: armor_lines_def Let_def del: append.simps)
qed

lemma detach_armor_printed:
  assumes "codec_laws c" and "name \<in> {''PIPE-K1'', ''PGP''}" and "bs \<noteq> []"
  shows "detach_armor c (str_bytes (armor_text (armor_lines name (base64_encode c bs)))) = Inr bs"
proof -
  let ?b = "base64_encode c bs"
  let ?ls = "armor_lines name ?b"
  have b: "list_all base64_char ?b" "?b \<noteq> []" "base64_decode c ?b = Inr bs"
    using assms(1,3) by (simp_all add: codec_laws_def)
  have clean: "newline \<notin> set ?b" "carriage_return \<notin> set ?b" "\<forall>ch \<in> set ?b. code ch < 128"
    using b(1) base64_char_visible by (auto simp: list_all_iff)
  have "list_all (\<lambda>l. newline \<notin> set l \<and> carriage_return \<notin> set l) ?ls"
    using assms(2) clean by (auto simp: armor_lines_def newline_def carriage_return_def)
  then have lines: "lines (armor_text ?ls) = ?ls" by (rule lines_armor_text)
  have "\<forall>ch \<in> set (armor_text ?ls). code ch < 128"
    using assms(2) clean by (auto simp: armor_text_def armor_lines_def newline_def)
  then have "from_utf8 (str_bytes (armor_text ?ls)) = Some (armor_text ?ls)"
    by (simp add: from_utf8_def utf8_valid_str)
  moreover have "armored (armor_text ?ls)"
    using assms(2) by (auto simp: armor_text_def armor_lines_def armored_def begin_marker_def)
  ultimately show ?thesis
    using lines armor_body_printed [OF assms(2) b(1,2)] b(3) by (simp add: detach_armor_def)
qed

subsection \<open>Reading the signed stream\<close>

text \<open>
  The loops of \<open>sign\<close> and \<open>verify\<close>: plain \<open>read\<close> calls, without a retry, until one returns
  nothing. \<open>hashed\<close> is what the hasher was fed; \<open>verify --pass-through\<close> also spools it.
\<close>

lemma stdin_read_progress:
  assumes "stdin_read n w = (Ok r, w1)" and "io_try from_io r w1 = (Ok bs, w2)" and "bs \<noteq> []"
  shows "length (rd_bytes (w_stdin w2)) < length (rd_bytes (w_stdin w))"
proof -
  have "r = Inr bs" "w2 = w1" using assms(2) by (auto elim: io_try_OkE)
  with assms(1) have "rd_bytes (w_stdin w) = bs @ rd_bytes (w_stdin w2)"
    by (auto simp: stdin_read_def dest: read_bytes split: prod.splits)
  with assms(3) show ?thesis by simp
qed

definition spool_piece :: "crypto \<Rightarrow> bytes \<Rightarrow> spooler option \<Rightarrow> spooler option io" where
  "spool_piece c bs spooler =
     (case spooler of
        None \<Rightarrow> io_return None
      | Some s \<Rightarrow> (\<lambda>w. case write_chunk c bs s w of
            (Inl e, s', w') \<Rightarrow> (Err (UsageError e), w')
          | (Inr _, s', w') \<Rightarrow> (Ok (Some s'), w')))"

lemma spool_piece_stdin: "spool_piece c bs sp w = (Ok sp', w') \<Longrightarrow> w_stdin w' = w_stdin w"
  by (auto simp: spool_piece_def split: option.splits prod.splits sum.splits dest: spool.put_keeps_stdin)

function hash_stdin :: "crypto \<Rightarrow> spooler option \<Rightarrow> bytes \<Rightarrow> (spooler option \<times> bytes) io" where
  "hash_stdin c spooler hashed w =
     io_bind (stdin_read CHUNK_SIZE) (\<lambda>r w1.
     io_bind (io_try from_io r) (\<lambda>bs w2.
     if bs = [] then io_return (spooler, hashed) w2
     else io_bind (spool_piece c bs spooler) (\<lambda>spooler' w3.
          hash_stdin c spooler' (hashed @ bs) w3) w2) w1) w"
  by pat_completeness auto
termination
proof (relation "measure (\<lambda>(c, s, h, w). length (rd_bytes (w_stdin w)))", goal_cases)
  case (2 c s h w r w1 bs w2 s' w3)
  then have "length (rd_bytes (w_stdin w2)) < length (rd_bytes (w_stdin w))"
    using stdin_read_progress by blast
  moreover have "w_stdin w3 = w_stdin w2" using 2 spool_piece_stdin by blast
  ultimately show ?case by simp
qed simp

declare hash_stdin.simps [simp del]

definition now_timestamp :: "u32 io" where
  "now_timestamp =
     io_bind (io_get w_clock) (\<lambda>t.
     case t of
       None \<Rightarrow> io_err (UsageError ''Clock error: second time provided was later than self'')
     | Some secs \<Rightarrow> io_return (of_nat secs))"

subsection \<open>The commands\<close>

definition load_signing_key :: "crypto \<Rightarrow> key_intake_args \<Rightarrow> bytes io" where
  "load_signing_key c key_args =
     io_bind (load_secret_key c key_args) (\<lambda>sk_bytes.
     io_bind (io_try (\<lambda>e. UsageError (''Invalid secp256k1 secret key: '' @ e)) (signing_key c sk_bytes)) (\<lambda>_.
     io_return sk_bytes))"

definition sign_command :: "crypto \<Rightarrow> bool \<Rightarrow> key_intake_args \<Rightarrow> unit io" where
  "sign_command c armor key_args =
     io_bind (load_signing_key c key_args) (\<lambda>sk.
     io_bind (hash_stdin c None []) (\<lambda>(_, data).
     io_bind now_timestamp (\<lambda>now.
     io_bind (io_unwrap ''signing failed'' (sign_stream_payload c sk (sha256 c data) now)) (\<lambda>sig_payload.
     if armor then print_lines (armor_lines ''PIPE-K1'' (base64_encode c sig_payload))
     else put sig_payload))))"

text \<open>The signature file, read, taken out of its armor and checked for its length.\<close>

definition read_signature :: "crypto \<Rightarrow> string option \<Rightarrow> bytes io" where
  "read_signature c sig_path =
     io_bind (case sig_path of
                None \<Rightarrow> io_err (UsageError ''Missing mandatory argument: --sig <file>'')
              | Some path \<Rightarrow> io_return path) (\<lambda>path.
     io_bind (fs_read path) (\<lambda>r.
     io_bind (io_try (\<lambda>e. UsageError (''Failed to read signature file '' @ [CHR 0x27] @ path @
                [CHR 0x27] @ '': '' @ io_msg e)) r) (\<lambda>sig_raw.
     io_bind (io_try id (detach_armor c sig_raw)) (\<lambda>sig_bytes.
     if length sig_bytes \<noteq> SIGNATURE_PAYLOAD_SIZE
     then io_err (WireCorruption (''Signature payload must be exactly '' @ show_nat SIGNATURE_PAYLOAD_SIZE @
            '' bytes (got '' @ show_nat (length sig_bytes) @ '')''))
     else io_return sig_bytes))))"

definition check_expected :: "crypto \<Rightarrow> string option \<Rightarrow> bytes \<Rightarrow> string \<Rightarrow> unit io" where
  "check_expected c expected_pub signer_pk signer_npub =
     (case expected_pub of
        Some expd \<Rightarrow>
          io_bind (io_try UsageError (parse_key_bytes c expd)) (\<lambda>exp_pk.
          io_when (exp_pk \<noteq> signer_pk) (io_err (AuthFailure (''Signer key '' @ signer_npub @
            '' does not match expected key '' @ expd))))
      | None \<Rightarrow> eprintln (''Notice: Verifying against embedded untrusted pubkey '' @ signer_npub))"

text \<open>Everything \<open>verify\<close> does before it reports success or releases the stream.\<close>

definition verify_stream ::
  "crypto \<Rightarrow> string option \<Rightarrow> string option \<Rightarrow> u64 option \<Rightarrow> bool \<Rightarrow> (spooler option \<times> string) io" where
  "verify_stream c sig_path expected_pub limit pass_through =
     io_bind (read_signature c sig_path) (\<lambda>payload.
     io_bind (if pass_through then io_bind (spooler_new limit) (\<lambda>s. io_return (Some s))
              else io_return None) (\<lambda>spooler.
     io_bind (hash_stdin c spooler []) (\<lambda>(spooler, data).
     io_bind (io_try (\<lambda>e. AuthFailure (''Verification FAILED: '' @ e))
                (verify_stream_payload c payload (sha256 c data))) (\<lambda>signer_pk.
     io_bind (io_unwrap ''called `Result::unwrap()` on an `Err` value'' (encode_npub c signer_pk)) (\<lambda>signer_npub.
     io_bind (check_expected c expected_pub signer_pk signer_npub) (\<lambda>_.
     io_return (spooler, signer_npub)))))))"

definition verify_command ::
  "crypto \<Rightarrow> string option \<Rightarrow> string option \<Rightarrow> u64 option \<Rightarrow> bool \<Rightarrow> unit io" where
  "verify_command c sig_path expected_pub limit pass_through =
     (if pass_through \<and> expected_pub = None
      then io_err (UsageError ''--pub <npub|hex> is mandatory when --pass-through is enabled'')
      else
        io_bind (verify_stream c sig_path expected_pub limit pass_through) (\<lambda>(spooler, signer_npub).
        case spooler of
          Some s \<Rightarrow> io_bind (release_to c s) (io_try from_io)
        | None \<Rightarrow> eprintln (''Notice: Cryptographic verification SUCCESS from '' @ signer_npub)))"

subsection \<open>What the loop reads\<close>

definition holds_opt :: "crypto \<Rightarrow> spooler option \<Rightarrow> bytes \<Rightarrow> bool" where
  "holds_opt c spooler p = (case spooler of None \<Rightarrow> True | Some s \<Rightarrow> spool_holds c s p)"

lemma spool_piece_Ok:
  assumes "spool_piece c bs sp w = (Ok sp', w')"
  shows "(sp' = None \<longleftrightarrow> sp = None) \<and> (\<forall>p. holds_opt c sp p \<longrightarrow> holds_opt c sp' (p @ bs))"
  using assms by (auto simp: spool_piece_def holds_opt_def split: option.splits prod.splits sum.splits
      dest: spool.put_holds)

lemma keeps_calm_spool_piece [quiet_rules]: "keeps calm (spool_piece c bs sp)"
proof (cases sp)
  case (Some s)
  then show ?thesis
    using spool.put_step disk_step_fields(1,7)
    by (fastforce simp: keeps_def spool_piece_def calm_def split: prod.splits sum.splits)
qed (simp add: spool_piece_def keeps_return)

lemma hash_stdin_calm: "calm (snd (hash_stdin c sp h w)) = calm w"
proof (induction c sp h w rule: hash_stdin.induct)
  case (1 c sp h w)
  show ?case
    unfolding hash_stdin.simps [of c sp h w]
  proof (rule keeps_run_bind [OF keeps_calm_primitives(2)], rule keeps_run_bind [OF keeps_try])
    fix r w1 bs w2
    assume rd: "stdin_read CHUNK_SIZE w = (Ok r, w1)" "io_try from_io r w1 = (Ok bs, w2)"
    have "calm (snd (io_bind (spool_piece c bs sp) (\<lambda>sp'. hash_stdin c sp' (h @ bs)) w2)) = calm w2"
      if "bs \<noteq> []"
      by (rule keeps_run_bind [OF keeps_calm_spool_piece]) (rule "1.IH" [OF rd that])
    then show "calm (snd (if bs = [] then io_return (sp, h) w2
        else io_bind (spool_piece c bs sp) (\<lambda>sp' w3. hash_stdin c sp' (h @ bs) w3) w2)) = calm w2"
      by simp
  qed
qed

lemma keeps_hash_stdin [quiet_rules]: "keeps calm (hash_stdin c sp h)"
  by (simp add: keeps_def hash_stdin_calm)

lemma stdin_read_Inr:
  "stdin_read n w = (Ok (Inr bs), w') \<Longrightarrow> w' = w\<lparr>w_stdin := w_stdin w'\<rparr> \<and>
     rd_bytes (w_stdin w) = bs @ rd_bytes (w_stdin w') \<and>
     (0 < n \<longrightarrow> live (w_stdin w) \<longrightarrow> live (w_stdin w') \<and> (bs = [] \<longrightarrow> w_stdin w = []))"
  by (auto simp: stdin_read_def dest: read_bytes read_live read_live_eof split: prod.splits)

text \<open>A loop that ends on a live input has hashed, and spooled, all of it.\<close>

lemma hash_stdin_sound:
  "hash_stdin c sp h w = (Ok (sp', h'), w') \<Longrightarrow> live (w_stdin w) \<Longrightarrow>
     h' = h @ rd_bytes (w_stdin w) \<and> (sp' = None \<longleftrightarrow> sp = None) \<and>
     (\<forall>p. holds_opt c sp p \<longrightarrow> holds_opt c sp' (p @ rd_bytes (w_stdin w)))"
proof (induction c sp h w rule: hash_stdin.induct)
  case (1 c sp h w)
  obtain bs w1 where rd: "stdin_read CHUNK_SIZE w = (Ok (Inr bs), w1)"
    and fin: "(if bs = [] then io_return (sp, h) w1
      else io_bind (spool_piece c bs sp) (\<lambda>sp' w3. hash_stdin c sp' (h @ bs) w3) w1) = (Ok (sp', h'), w')"
    using "1.prems"(1) unfolding hash_stdin.simps [of c sp h w] by (elim io_bind_OkE io_try_OkE) auto
  note R = stdin_read_Inr [OF rd]
  show ?case
  proof (cases "bs = []")
    case True
    with fin R "1.prems"(2) show ?thesis by simp
  next
    case False
    with fin obtain s1 w3 where pc: "spool_piece c bs sp w1 = (Ok s1, w3)"
      and rec: "hash_stdin c s1 (h @ bs) w3 = (Ok (sp', h'), w')"
      by (auto elim: io_bind_OkE)
    have w3: "w_stdin w3 = w_stdin w1" by (rule spool_piece_stdin [OF pc])
    have "live (w_stdin w3)" using R "1.prems"(2) w3 by simp
    from "1.IH" [OF rd _ False pc rec this] have
      "h' = (h @ bs) @ rd_bytes (w_stdin w3)" "sp' = None \<longleftrightarrow> s1 = None"
      "\<forall>p. holds_opt c s1 p \<longrightarrow> holds_opt c sp' (p @ rd_bytes (w_stdin w3))" by simp_all
    with R w3 spool_piece_Ok [OF pc] show ?thesis by (metis append_assoc)
  qed
qed

text \<open>On a smooth input, a faithful world and without a ceiling the loop ends.\<close>

lemma stdin_read_smooth:
  assumes "smooth (w_stdin w)" and "0 < n"
  obtains bs rs where "stdin_read n w = (Ok (Inr bs), w\<lparr>w_stdin := rs\<rparr>)" and "smooth rs"
    and "rd_bytes (w_stdin w) = bs @ rd_bytes rs" and "bs = [] \<longrightarrow> w_stdin w = []"
proof -
  obtain r rs where rd: "read n (w_stdin w) = (r, rs)" by fastforce
  obtain bs where bs: "r = Inr bs"
    using assms(1) rd by (cases r; cases "w_stdin w" rule: rd_bytes.cases) (auto split: if_splits)
  show ?thesis
  proof (rule that)
    show "stdin_read n w = (Ok (Inr bs), w\<lparr>w_stdin := rs\<rparr>)"
      using rd bs by (simp add: stdin_read_def)
    show "smooth rs" by (rule read_smooth [OF rd assms])
    show "rd_bytes (w_stdin w) = bs @ rd_bytes rs" using read_bytes rd bs by blast
    show "bs = [] \<longrightarrow> w_stdin w = []"
      using read_live_eof [OF _ smooth_live [OF assms(1)] assms(2)] rd bs by blast
  qed
qed

lemma spool_piece_faithful:
  assumes "aead_laws c" and "faithful w" and "holds_opt c sp p" and "\<forall>s. sp = Some s \<longrightarrow> max_size s = None"
  obtains sp' w' where "spool_piece c bs sp w = (Ok sp', w')" and "holds_opt c sp' (p @ bs)"
    and "faithful w'" and "\<forall>s. sp' = Some s \<longrightarrow> max_size s = None" and "sp' = None \<longleftrightarrow> sp = None"
    and "w_stdin w' = w_stdin w" and "w_clock w' = w_clock w"
proof (cases sp)
  case None
  with assms that [of None w] show ?thesis by (simp add: spool_piece_def holds_opt_def)
next
  case (Some s)
  with assms(3,4) have s: "spool_holds c s p" "max_size s = None" by (simp_all add: holds_opt_def)
  obtain s' w' where p: "write_chunk c bs s w = (Inr (), s', w')" "spool_holds c s' (p @ bs)"
    "faithful w'" "max_size s' = None" "w_stdin w' = w_stdin w"
    by (rule spool.put_some [OF assms(1) s(1) assms(2) s(2), of bs])
  have "w_clock w' = w_clock w"
    by (rule disk_step_keeps [OF spool.put_step [OF p(1)]]) (simp add: off_disk_def)
  with p Some that [of "Some s'" w'] show ?thesis by (simp add: spool_piece_def holds_opt_def)
qed

lemma hash_stdin_complete:
  assumes "aead_laws c"
  shows "smooth (w_stdin w) \<Longrightarrow> faithful w \<Longrightarrow> holds_opt c sp p \<Longrightarrow>
     \<forall>s. sp = Some s \<longrightarrow> max_size s = None \<Longrightarrow>
     \<exists>sp' w'. hash_stdin c sp h w = (Ok (sp', h @ rd_bytes (w_stdin w)), w') \<and> faithful w' \<and>
       w_clock w' = w_clock w"
proof (induction "length (rd_bytes (w_stdin w))" arbitrary: w sp h p rule: less_induct)
  case less
  obtain bs rs where rd: "stdin_read CHUNK_SIZE w = (Ok (Inr bs), w\<lparr>w_stdin := rs\<rparr>)" "smooth rs"
    "rd_bytes (w_stdin w) = bs @ rd_bytes rs" and eof: "bs = [] \<longrightarrow> w_stdin w = []"
    by (rule stdin_read_smooth [OF less.prems(1) chunk_size_pos(1)])
  have step: "hash_stdin c sp h w = (if bs = [] then io_return (sp, h) (w\<lparr>w_stdin := rs\<rparr>)
      else io_bind (spool_piece c bs sp) (\<lambda>sp' w3. hash_stdin c sp' (h @ bs) w3) (w\<lparr>w_stdin := rs\<rparr>))"
    unfolding hash_stdin.simps [of c sp h w] by (simp only: io_bind_def rd(1) prod.case res.case
        io_try_simps io_run_simps)
  show ?case
  proof (cases "bs = []")
    case True
    with step eof less.prems(2) show ?thesis by simp
  next
    case False
    have fa: "faithful (w\<lparr>w_stdin := rs\<rparr>)" using less.prems(2) by simp
    obtain sp1 w1 where pc: "spool_piece c bs sp (w\<lparr>w_stdin := rs\<rparr>) = (Ok sp1, w1)"
      "holds_opt c sp1 (p @ bs)" "faithful w1" "\<forall>s. sp1 = Some s \<longrightarrow> max_size s = None"
      "w_stdin w1 = w_stdin (w\<lparr>w_stdin := rs\<rparr>)" "w_clock w1 = w_clock (w\<lparr>w_stdin := rs\<rparr>)"
      by (rule spool_piece_faithful [OF assms fa less.prems(3,4), of bs])
    have "length (rd_bytes (w_stdin w1)) < length (rd_bytes (w_stdin w))" "smooth (w_stdin w1)"
      using False rd(2,3) pc(5) by simp_all
    from less.hyps [OF this(1,2) pc(3,2,4), of "h @ bs"] obtain sp' w' where
      "hash_stdin c sp1 (h @ bs) w1 = (Ok (sp', (h @ bs) @ rd_bytes (w_stdin w1)), w')"
      "faithful w'" "w_clock w' = w_clock w1" by blast
    with step False pc rd(3) show ?thesis by (simp add: io_bind_def)
  qed
qed

subsection \<open>What \<open>verify\<close> accepts\<close>

lemma read_signature_Ok:
  assumes "read_signature c path w = (Ok payload, w')"
  shows "w' = w \<and> length payload = SIGNATURE_PAYLOAD_SIZE \<and>
    (\<exists>file raw. path = Some file \<and> w_files w file = Inr raw \<and> detach_armor c raw = Inr payload)"
  using assms unfolding read_signature_def fs_read_def
  by (auto elim!: io_bind_OkE io_try_OkE split: option.splits if_splits)

lemma keeps_read_signature: "keeps calm (read_signature c path)"
  unfolding read_signature_def
  by (intro quiet_rules) (simp add: keeps_def fs_read_def)

lemma keeps_verify_stream: "keeps calm (verify_stream c path ep limit pass)"
  unfolding verify_stream_def check_expected_def spooler_new_def
  by (intro quiet_rules keeps_read_signature)

lemma verify_stream_sound:
  assumes "digest_laws c" and "live (w_stdin w)"
    and "verify_stream c path ep limit pass w = (Ok (sp, npub), w')"
  shows "\<exists>file raw payload pk. path = Some file \<and> w_files w file = Inr raw \<and>
    detach_armor c raw = Inr payload \<and>
    signed_by c payload (sha256 c (rd_bytes (w_stdin w))) pk \<and> encode_npub c pk = Some npub \<and>
    (\<forall>s. ep = Some s \<longrightarrow> parse_key_bytes c s = Inr pk) \<and>
    (sp = None \<longleftrightarrow> \<not> pass) \<and> holds_opt c sp (rd_bytes (w_stdin w))"
proof -
  obtain payload w1 s0 w2 data w3 pk w4 where
    rs: "read_signature c path w = (Ok payload, w1)" and
    s0: "(if pass then io_bind (spooler_new limit) (\<lambda>s. io_return (Some s)) else io_return None) w1 = (Ok s0, w2)" and
    hs: "hash_stdin c s0 [] w2 = (Ok (sp, data), w3)" and
    vp: "verify_stream_payload c payload (sha256 c data) = Inr pk" and
    np: "encode_npub c pk = Some npub" and
    ce: "check_expected c ep pk npub w3 = (Ok (), w4)"
    using assms(3) unfolding verify_stream_def
    by (elim io_bind_OkE io_try_OkE io_unwrap_OkE)
      (auto elim!: io_bind_OkE io_try_OkE io_unwrap_OkE split: prod.splits)
  note R = read_signature_Ok [OF rs]
  have w2: "w_stdin w2 = w_stdin w" "holds_opt c s0 []" "s0 = None \<longleftrightarrow> \<not> pass"
  proof -
    have "w_stdin w2 = w_stdin w \<and> holds_opt c s0 [] \<and> (s0 = None \<longleftrightarrow> \<not> pass)"
    proof (cases pass)
      case True
      with s0 obtain s where "spooler_new limit w1 = (Ok s, w2)" "s0 = Some s"
        by (auto elim: io_bind_OkE)
      with spooler_new_Ok(1,4) [OF this(1)] True R show ?thesis by (simp add: holds_opt_def)
    next
      case False
      with s0 R show ?thesis by (simp add: holds_opt_def)
    qed
    then show "w_stdin w2 = w_stdin w" "holds_opt c s0 []" "s0 = None \<longleftrightarrow> \<not> pass" by simp_all
  qed
  have "live (w_stdin w2)" using assms(2) w2(1) by simp
  from hash_stdin_sound [OF hs this] w2 have
    data: "data = rd_bytes (w_stdin w)" "sp = None \<longleftrightarrow> \<not> pass" "holds_opt c sp (rd_bytes (w_stdin w))"
    by auto
  have "length (sha256 c data) = 32" using assms(1) by (simp add: digest_laws_def)
  then have "signed_by c payload (sha256 c (rd_bytes (w_stdin w))) pk"
    using vp R data(1) by (simp add: verify_stream_payload_iff)
  moreover have "\<forall>s. ep = Some s \<longrightarrow> parse_key_bytes c s = Inr pk"
    using ce by (auto simp: check_expected_def io_when_def elim!: io_bind_OkE io_try_OkE split: if_splits)
  ultimately show ?thesis using R np data by blast
qed

text \<open>\<open>verify\<close> writes to standard output only the stream it has verified.\<close>

lemma verify_command_sound:
  assumes "digest_laws c" and "aead_laws c" and "live (w_stdin w)"
    and run: "verify_command c path ep limit pass w = (r, w')" and out: "w_stdout w' \<noteq> w_stdout w"
  shows "pass \<and> (\<exists>file raw payload pk s. path = Some file \<and> w_files w file = Inr raw \<and>
    detach_armor c raw = Inr payload \<and> ep = Some s \<and> parse_key_bytes c s = Inr pk \<and>
    signed_by c payload (sha256 c (rd_bytes (w_stdin w))) pk) \<and>
    (w_disk_view w = (\<lambda>d. [Data d]) \<longrightarrow> length (rd_bytes (w_stdin w)) < 2 ^ 64 \<longrightarrow>
       (\<exists>d z. w_stdout w' = w_stdout w @ d \<and> rd_bytes (w_stdin w) = d @ z \<and> (r = Ok () \<longrightarrow> z = [])))"
proof -
  have pub: "\<not> (pass \<and> ep = None)"
  proof
    assume "pass \<and> ep = None"
    with run have "w' = w" by (simp add: verify_command_def)
    with out show False by simp
  qed
  obtain q w1 where vs: "verify_stream c path ep limit pass w = (q, w1)" by fastforce
  have calm: "calm w1 = calm w" using keepsD [OF keeps_verify_stream vs] .
  have body: "verify_command c path ep limit pass w = (case q of
        Ok (sp, npub) \<Rightarrow> (case sp of
            Some s \<Rightarrow> io_bind (release_to c s) (io_try from_io) w1
          | None \<Rightarrow> eprintln (''Notice: Cryptographic verification SUCCESS from '' @ npub) w1)
      | Err e \<Rightarrow> (Err e, w1) | Panic x \<Rightarrow> (Panic x, w1) | Diverge \<Rightarrow> (Diverge, w1))"
    unfolding verify_command_def if_not_P [OF pub]
    by (simp add: io_bind_def [of "verify_stream c path ep limit pass"] vs
        split: res.split option.split prod.split del: append.simps)
  obtain s npub where q: "q = Ok (Some s, npub)"
    and rel: "io_bind (release_to c s) (io_try from_io) w1 = (r, w')"
  proof (cases q)
    case (Ok a)
    obtain sp npub where a: "a = (sp, npub)" by fastforce
    show ?thesis
    proof (cases sp)
      case None
      with body run out calm Ok a show ?thesis by (auto simp: eprintln_def calm_iff)
    next
      case (Some s)
      with that body run Ok a show ?thesis by simp
    qed
  qed (use body run out calm in \<open>auto simp: calm_iff\<close>)
  from verify_stream_sound [OF assms(1,3) vs [unfolded q]] obtain sigfile raw payload pk where
    v: "path = Some sigfile" "w_files w sigfile = Inr raw" "detach_armor c raw = Inr payload"
    "signed_by c payload (sha256 c (rd_bytes (w_stdin w))) pk"
    "\<forall>s. ep = Some s \<longrightarrow> parse_key_bytes c s = Inr pk" "pass" "spool_holds c s (rd_bytes (w_stdin w))"
    by (auto simp: holds_opt_def)
  obtain es where es: "ep = Some es" using pub v(6) by auto
  obtain q' where q': "release_to c s w1 = (q', w')" "r = Ok () \<longrightarrow> q' = Ok (Inr ())"
    using io_bind_try_world [OF rel] by blast
  have "\<exists>d z. w_stdout w' = w_stdout w @ d \<and> rd_bytes (w_stdin w) = d @ z \<and> (r = Ok () \<longrightarrow> z = [])"
    if "w_disk_view w = (\<lambda>d. [Data d])" "length (rd_bytes (w_stdin w)) < 2 ^ 64"
    using release_to_prefix [OF assms(2) v(7) that(2) _ q'(1)] that(1) calm q'(2) by (auto simp: calm_iff)
  with v es show ?thesis by blast
qed

text \<open>And it accepts every stream its signature file was made for.\<close>

lemma verify_command_complete:
  assumes laws: "digest_laws c" "aead_laws c"
    and sigf: "w_files w file = Inr raw" "detach_armor c raw = Inr payload"
      "length payload = SIGNATURE_PAYLOAD_SIZE"
    and sig: "signed_by c payload (sha256 c (rd_bytes (w_stdin w))) pk" "encode_npub c pk = Some npub"
    and ep: "case ep of None \<Rightarrow> \<not> pass | Some s \<Rightarrow> parse_key_bytes c s = Inr pk"
    and w: "smooth (w_stdin w)" "faithful w" "length (rd_bytes (w_stdin w)) < 2 ^ 64"
  shows "\<exists>w'. verify_command c (Some file) ep None pass w = (Ok (), w') \<and>
    w_stdout w' = w_stdout w @ (if pass then rd_bytes (w_stdin w) else [])"
proof -
  have rs: "read_signature c (Some file) w = (Ok payload, w)"
    using sigf by (simp add: read_signature_def io_bind_def fs_read_def)
  have "\<exists>s0 w1. (if pass then io_bind (spooler_new None) (\<lambda>s. io_return (Some s)) else io_return None) w = (Ok s0, w1) \<and>
      holds_opt c s0 [] \<and> (s0 = None \<longleftrightarrow> \<not> pass) \<and> (\<forall>s. s0 = Some s \<longrightarrow> max_size s = None) \<and>
      w_stdin w1 = w_stdin w \<and> faithful w1 \<and> calm w1 = calm w"
  proof (cases pass)
    case True
    obtain s w1 where new: "spooler_new None w = (Ok s, w1)"
      by (simp add: spooler_new_def io_bind_def os_random_def)
    with spooler_new_Ok [OF new] True w(2) show ?thesis by (simp add: io_bind_def holds_opt_def calm_iff)
  next
    case False
    with w(2) show ?thesis by (simp add: holds_opt_def)
  qed
  then obtain s0 w1 where new: "(if pass then io_bind (spooler_new None) (\<lambda>s. io_return (Some s)) else io_return None) w = (Ok s0, w1)"
    and s0: "holds_opt c s0 []" "s0 = None \<longleftrightarrow> \<not> pass" "\<forall>s. s0 = Some s \<longrightarrow> max_size s = None"
    and w1: "w_stdin w1 = w_stdin w" "faithful w1" "calm w1 = calm w" by blast
  have "smooth (w_stdin w1)" using w(1) w1(1) by simp
  from hash_stdin_complete [OF laws(2) this w1(2) s0(1,3), of "[]"] obtain sp w2 where
    hs: "hash_stdin c s0 [] w1 = (Ok (sp, rd_bytes (w_stdin w)), w2)" and w2: "faithful w2"
    using w1(1) by auto
  have "calm w2 = calm w" using keepsD [OF keeps_hash_stdin hs] w1(3) by simp
  have "live (w_stdin w1)" using w(1) w1(1) smooth_live by simp
  from hash_stdin_sound [OF hs this] s0 w1(1) have
    sp: "sp = None \<longleftrightarrow> \<not> pass" "holds_opt c sp (rd_bytes (w_stdin w))" by auto
  have "length (sha256 c (rd_bytes (w_stdin w))) = 32" using laws(1) by (simp add: digest_laws_def)
  then have vp: "verify_stream_payload c payload (sha256 c (rd_bytes (w_stdin w))) = Inr pk"
    using verify_stream_payload_iff [OF sigf(3)] sig(1) by blast
  obtain w3 where ce: "check_expected c ep pk npub w2 = (Ok (), w3)" and w3: "faithful w3" "calm w3 = calm w"
  proof (cases ep)
    case None
    with that [of "w2\<lparr>w_stderr := w_stderr w2 @ [''Notice: Verifying against embedded untrusted pubkey '' @ npub]\<rparr>"]
      w2 \<open>calm w2 = calm w\<close> show ?thesis
      by (simp add: check_expected_def eprintln_def calm_iff del: append.simps)
  next
    case (Some s)
    with that [of w2] ep w2 \<open>calm w2 = calm w\<close> show ?thesis by (simp add: check_expected_def)
  qed
  have vs: "verify_stream c (Some file) ep None pass w = (Ok (sp, npub), w3)"
    by (simp only: verify_stream_def io_bind_def rs new hs vp sig(2) ce prod.case res.case
        io_try_simps io_unwrap_simps io_run_simps)
  have pub: "\<not> (pass \<and> ep = None)" using ep by (auto split: option.splits)
  have cmd: "verify_command c (Some file) ep None pass w = (case sp of
        Some s \<Rightarrow> io_bind (release_to c s) (io_try from_io) w3
      | None \<Rightarrow> eprintln (''Notice: Cryptographic verification SUCCESS from '' @ npub) w3)"
    unfolding verify_command_def if_not_P [OF pub]
    by (simp add: io_bind_def [of "verify_stream c (Some file) ep None pass"] vs
        split: option.split del: append.simps)
  show ?thesis
  proof (cases sp)
    case None
    with cmd sp(1) w3(2) show ?thesis by (simp add: eprintln_def calm_iff del: append.simps)
  next
    case (Some s)
    with sp(2) have "spool_holds c s (rd_bytes (w_stdin w))" by (simp add: holds_opt_def)
    from spool.release_holds [OF laws(2) this w(3) w3(1)] cmd Some sp(1) w3(2)
    show ?thesis by (simp add: io_bind_def calm_iff)
  qed
qed

subsection \<open>What \<open>sign\<close> writes\<close>

lemma sign_command_room:
  assumes laws: "digest_laws c" "aead_laws c" "schnorr_laws c"
    and key: "load_secret_key c args w = (Ok sk, w1)" "signing_key c sk = Inr ()"
    and w: "smooth (w_stdin w)" "faithful w" "w_clock w = Some t"
  obtains payload w' where "sign_command c armor args w = (Ok (), w')"
    and "length payload = SIGNATURE_PAYLOAD_SIZE"
    and "sign_stream_payload c sk (sha256 c (rd_bytes (w_stdin w))) (of_nat t) = Some payload"
    and "signed_by c payload (sha256 c (rd_bytes (w_stdin w))) (verifying_key_of c sk)"
    and "w_stdout w' = w_stdout w @ (if armor
      then str_bytes (armor_text (armor_lines ''PIPE-K1'' (base64_encode c payload))) else payload)"
proof -
  note step = keepsD [OF keeps_load_secret_key key(1)]
  have w1: "smooth (w_stdin w1)" "rd_bytes (w_stdin w1) = rd_bytes (w_stdin w)" "faithful w1"
    "w_clock w1 = Some t" "w_stdout w1 = w_stdout w"
    using intake_view_fields(1,2,14) [OF step] intake_view_faithful [OF step] w by simp_all
  have "holds_opt c None []" "\<forall>s. (None :: spooler option) = Some s \<longrightarrow> max_size s = None"
    by (simp_all add: holds_opt_def)
  from hash_stdin_complete [OF laws(2) w1(1,3) this, of "[]"] obtain sp w2 where
    hs: "hash_stdin c None [] w1 = (Ok (sp, rd_bytes (w_stdin w)), w2)" "faithful w2" "w_clock w2 = Some t"
    using w1(2,4) by auto
  have o2: "w_stdout w2 = w_stdout w" using keepsD [OF keeps_hash_stdin hs(1)] w1(5) by (simp add: calm_iff)
  have room: "w_room w2 = None" using hs(2) by (simp add: faithful_def)
  have d: "length (sha256 c (rd_bytes (w_stdin w))) = 32" using laws(1) by (simp add: digest_laws_def)
  obtain payload where p: "sign_stream_payload c sk (sha256 c (rd_bytes (w_stdin w))) (of_nat t) = Some payload"
    "length payload = SIGNATURE_PAYLOAD_SIZE"
    "signed_by c payload (sha256 c (rd_bytes (w_stdin w))) (verifying_key_of c sk)"
    by (rule sign_stream_payload_ok [OF laws(3,1) key(2) d])
  have load: "load_signing_key c args w = (Ok sk, w1)"
    by (simp add: load_signing_key_def io_bind_def key)
  have now: "now_timestamp w2 = (Ok (of_nat t), w2)"
    by (simp add: now_timestamp_def io_bind_def hs(3))
  have "sign_command c armor args w = (if armor
      then print_lines (armor_lines ''PIPE-K1'' (base64_encode c payload)) else put payload) w2"
    by (simp only: sign_command_def io_bind_def load hs(1) now p(1) prod.case res.case
        io_unwrap_simps io_run_simps)
  then have "sign_command c armor args w = (Ok (), w2\<lparr>w_stdout := w_stdout w2 @ (if armor
      then str_bytes (armor_text (armor_lines ''PIPE-K1'' (base64_encode c payload))) else payload)\<rparr>)"
    using print_lines_room [OF room] put_room [OF room] by simp
  then show ?thesis by (rule that [OF _ p(2,1,3)]) (cases armor; simp add: o2)
qed


text \<open>A success, with or without a release, also means a signature of the whole stream.\<close>

lemma verify_command_Ok:
  assumes "digest_laws c" and "live (w_stdin w)"
    and run: "verify_command c path ep limit pass w = (Ok (), w')"
  shows "\<exists>file raw payload pk. path = Some file \<and> w_files w file = Inr raw \<and>
    detach_armor c raw = Inr payload \<and> signed_by c payload (sha256 c (rd_bytes (w_stdin w))) pk \<and>
    (\<forall>s. ep = Some s \<longrightarrow> parse_key_bytes c s = Inr pk) \<and> (pass \<longrightarrow> ep \<noteq> None)"
proof -
  have pub: "\<not> (pass \<and> ep = None)"
  proof
    assume "pass \<and> ep = None"
    with run show False by (simp add: verify_command_def)
  qed
  from run obtain x w1 where "verify_stream c path ep limit pass w = (Ok x, w1)"
    unfolding verify_command_def if_not_P [OF pub] by (auto elim: io_bind_OkE)
  then have "verify_stream c path ep limit pass w = (Ok (fst x, snd x), w1)" by simp
  from verify_stream_sound [OF assms(1,2) this] pub show ?thesis by auto
qed

text \<open>A signer's world for the witnesses: a clock, a key file, and data on standard input.\<close>

definition sample_data :: reader where
  "sample_data = [Data [1, 2, 3]]"

lemma sample_signature:
  obtains payload w' where "sign_command demo armor sample_args (sample_world sample_data) = (Ok (), w')"
    and "length payload = SIGNATURE_PAYLOAD_SIZE"
    and "signed_by demo payload (sha256 demo [1, 2, 3]) (verifying_key_of demo sample_secret)"
    and "w_stdout w' = (if armor
      then str_bytes (armor_text (armor_lines ''PIPE-K1'' (base64_encode demo payload))) else payload)"
proof -
  have w: "smooth (w_stdin (sample_world sample_data))" "faithful (sample_world sample_data)"
    "w_clock (sample_world sample_data) = Some 1788865892"
    by (simp_all add: sample_data_def) (simp add: sample_world_def demo_world_def)
  show ?thesis
    by (rule sign_command_room [OF demo_digest demo_aead demo_schnorr sample_load sample_keys(1) w, of armor])
      (rule that, simp_all add: sample_data_def)
qed

subsection \<open>Properties\<close>

text \<open>
  C22. \<open>verify_stream_payload\<close> accepts exactly the payloads of the wire format whose signature
  is valid under their own key for the timestamp and the digest, with the current or the legacy
  tag, and returns that key.
\<close>

theorem verify_payload_exact:
  assumes "length payload = SIGNATURE_PAYLOAD_SIZE" and "length d = 32"
  shows "verify_stream_payload c payload d = Inr pk \<longleftrightarrow>
    (\<exists>t sig. payload = MAGIC_SIGNATURE @ [0x01] @ be32 t @ pk @ sig \<and> length pk = 32 \<and> length sig = 64 \<and>
       verifying_key c pk = Inr () \<and> signature_parse c sig = Inr () \<and>
       (verify_raw c pk (tagged_hash c TAG_SIGN (be32 t @ d)) sig = Inr () \<or>
        verify_raw c pk (tagged_hash c TAG_SIGN_LEGACY (be32 t @ d)) sig = Inr ()))"
  unfolding verify_stream_payload_iff [OF assms] signed_by_def payload_of_def by auto

theorem verify_payload_exact_witness:
  "\<exists>payload. verify_stream_payload demo payload (sha256 demo [1, 2, 3]) = Inr (verifying_key_of demo sample_secret) \<and>
     take 4 payload = MAGIC_SIGNATURE"
proof -
  obtain payload w' where p: "length payload = SIGNATURE_PAYLOAD_SIZE"
    "signed_by demo payload (sha256 demo [1, 2, 3]) (verifying_key_of demo sample_secret)"
    by (rule sample_signature [of False])
  have d: "length (sha256 demo [1, 2, 3]) = 32" using demo_digest by (simp add: digest_laws_def)
  have v: "verify_stream_payload demo payload (sha256 demo [1, 2, 3]) = Inr (verifying_key_of demo sample_secret)"
    using p by (simp add: verify_stream_payload_iff [OF p(1) d])
  then have "take 4 payload = MAGIC_SIGNATURE"
    unfolding verify_payload_exact [OF p(1) d] by (auto simp: MAGIC_SIGNATURE_def str_bytes_def)
  with v show ?thesis by blast
qed

text \<open>
  C17. What \<open>sign\<close> writes, in ASCII armor or as raw bytes that do not happen to spell an armor
  label, \<open>verify\<close> accepts for the same stream: with the signer's key given by \<open>--pub\<close>, and with \<open>--pass-through\<close> it writes exactly
  the stream.
\<close>

theorem sign_then_verify:
  assumes "digest_laws c" and "aead_laws c" and "schnorr_laws c" and "codec_laws c"
    and "load_secret_key c args w = (Ok sk, w1)" and "signing_key c sk = Inr ()"
    and "smooth (w_stdin w)" and "faithful w" and "w_clock w = Some t" and "w_stdout w = []"
    and "armor \<or> detach_armor c (w_stdout (snd (sign_command c armor args w))) =
      Inr (w_stdout (snd (sign_command c armor args w)))"
    and "w_files v file = Inr (w_stdout (snd (sign_command c armor args w)))"
    and "rd_bytes (w_stdin v) = rd_bytes (w_stdin w)" and "smooth (w_stdin v)" and "faithful v"
    and "length (rd_bytes (w_stdin v)) < 2 ^ 64"
    and "parse_key_bytes c pub = Inr (verifying_key_of c sk)"
  shows "fst (sign_command c armor args w) = Ok () \<and>
    (\<exists>v'. verify_command c (Some file) (Some pub) None pass v = (Ok (), v') \<and>
       w_stdout v' = w_stdout v @ (if pass then rd_bytes (w_stdin w) else []))"
proof -
  obtain payload w' where s: "sign_command c armor args w = (Ok (), w')"
    "length payload = SIGNATURE_PAYLOAD_SIZE"
    "signed_by c payload (sha256 c (rd_bytes (w_stdin w))) (verifying_key_of c sk)"
    "w_stdout w' = w_stdout w @ (if armor
      then str_bytes (armor_text (armor_lines ''PIPE-K1'' (base64_encode c payload))) else payload)"
    by (rule sign_command_room [OF assms(1-3,5-9), of armor])
  have ne: "payload \<noteq> []" using s(2) by (auto simp: SIGNATURE_PAYLOAD_SIZE_def)
  have det: "detach_armor c (w_stdout w') = Inr payload"
    using s(1,4) assms(10,11) detach_armor_printed [OF assms(4) _ ne, of "''PIPE-K1''"]
    by (cases armor) auto
  have "length (verifying_key_of c sk) = 32" using s(3) by (auto simp: signed_by_def)
  then obtain npub where "encode_npub c (verifying_key_of c sk) = Some npub"
    using npub_total [OF assms(4)] by blast
  then have "\<exists>v'. verify_command c (Some file) (Some pub) None pass v = (Ok (), v') \<and>
      w_stdout v' = w_stdout v @ (if pass then rd_bytes (w_stdin v) else [])"
    using s(1,3) assms(12,13,17)
    by (intro verify_command_complete [OF assms(1,2) _ det s(2) _ _ _ assms(14-16)]) simp_all
  with s(1) assms(13) show ?thesis by (cases pass) simp_all
qed

theorem sign_then_verify_witness:
  "\<exists>v v'. verify_command demo (Some ''sig'') (Some sample_recipient) None True v = (Ok (), v') \<and>
     w_stdout v' = [1, 2, 3] \<and> w_files v ''sig'' = Inr (w_stdout (snd (sign_command demo True sample_args (sample_world sample_data))))"
proof -
  let ?w = "sample_world sample_data"
  let ?v = "?w\<lparr>w_files := (\<lambda>_. Inr (w_stdout (snd (sign_command demo True sample_args ?w))))\<rparr>"
  have w: "smooth (w_stdin ?w)" "faithful ?w" "w_clock ?w = Some 1788865892" "w_stdout ?w = []"
    by (simp_all add: sample_data_def) (simp add: sample_world_def demo_world_def)
  have v: "rd_bytes (w_stdin ?v) = rd_bytes (w_stdin ?w)" "smooth (w_stdin ?v)" "faithful ?v"
    "length (rd_bytes (w_stdin ?v)) < 2 ^ 64" "w_stdout ?v = []" "rd_bytes (w_stdin ?w) = [1, 2, 3]"
    using w(2) by (simp_all add: sample_data_def faithful_def)
  have f: "w_files ?v ''sig'' = Inr (w_stdout (snd (sign_command demo True sample_args ?w)))" by simp
  have "fst (sign_command demo True sample_args ?w) = Ok () \<and>
    (\<exists>v'. verify_command demo (Some ''sig'') (Some sample_recipient) None True ?v = (Ok (), v') \<and>
       w_stdout v' = w_stdout ?v @ (if True then rd_bytes (w_stdin ?w) else []))"
    by (rule sign_then_verify [OF demo_digest demo_aead demo_schnorr demo_codec sample_load sample_keys(1)
          w(1-4) _ f v(1-4) sample_parse(2)]) simp
  with v(5,6) f show ?thesis by (metis append_Nil if_True)
qed


text \<open>
  C6. \<open>verify --pass-through\<close> releases only a stream it has verified: when it writes a byte,
  a key was given with \<open>--pub\<close>, and the signature file, out of its armor, is a payload signed by
  that key for the digest of the whole of standard input; on a disk that returns what was
  written the output is a prefix of that input, and all of it when the command succeeds.
\<close>

theorem pass_through_verified:
  assumes "digest_laws c" and "aead_laws c" and "live (w_stdin w)"
    and "length (rd_bytes (w_stdin w)) < 2 ^ 64" and "w_disk_view w = (\<lambda>d. [Data d])"
    and "verify_command c path ep limit pass w = (r, w')" and "w_stdout w' \<noteq> w_stdout w"
  shows "pass \<and> (\<exists>file raw payload pk s d z. path = Some file \<and> w_files w file = Inr raw \<and>
    detach_armor c raw = Inr payload \<and> ep = Some s \<and> parse_key_bytes c s = Inr pk \<and>
    signed_by c payload (sha256 c (rd_bytes (w_stdin w))) pk \<and>
    w_stdout w' = w_stdout w @ d \<and> rd_bytes (w_stdin w) = d @ z \<and> (r = Ok () \<longrightarrow> z = []))"
  using verify_command_sound [OF assms(1-3,6,7)] assms(4,5) by blast

theorem pass_through_verified_witness:
  "\<exists>v v' pk. verify_command demo (Some ''sig'') (Some sample_recipient) None True v = (Ok (), v') \<and>
     w_stdout v' = [1, 2, 3] \<and> parse_key_bytes demo sample_recipient = Inr pk"
proof -
  obtain payload w' where p: "length payload = SIGNATURE_PAYLOAD_SIZE"
    "signed_by demo payload (sha256 demo [1, 2, 3]) (verifying_key_of demo sample_secret)"
    by (rule sample_signature [of True])
  let ?raw = "str_bytes (armor_text (armor_lines ''PIPE-K1'' (base64_encode demo payload)))"
  let ?v = "sample_world sample_data\<lparr>w_files := (\<lambda>_. Inr ?raw)\<rparr>"
  have "payload \<noteq> []" using p(1) by (auto simp: SIGNATURE_PAYLOAD_SIZE_def)
  then have det: "detach_armor demo ?raw = Inr payload"
    using detach_armor_printed [OF demo_codec] by simp
  obtain npub where np: "encode_npub demo (verifying_key_of demo sample_secret) = Some npub"
    using npub_total [OF demo_codec] by fastforce
  have v: "smooth (w_stdin ?v)" "faithful ?v" "rd_bytes (w_stdin ?v) = [1, 2, 3]" "w_stdout ?v = []"
    "length (rd_bytes (w_stdin ?v)) < 2 ^ 64" "w_disk_view ?v = (\<lambda>d. [Data d])" "w_files ?v ''sig'' = Inr ?raw"
    by (simp_all add: sample_data_def) (simp add: sample_world_def demo_world_def faithful_def)
  have "\<exists>v'. verify_command demo (Some ''sig'') (Some sample_recipient) None True ?v = (Ok (), v') \<and>
      w_stdout v' = w_stdout ?v @ (if True then rd_bytes (w_stdin ?v) else [])"
    by (rule verify_command_complete [OF demo_digest demo_aead v(7) det p(1) _ np _ v(1,2,5)])
      (use p(2) v(3) sample_parse(2) in simp_all)
  then obtain v' where run: "verify_command demo (Some ''sig'') (Some sample_recipient) None True ?v = (Ok (), v')"
    and out: "w_stdout v' = [1, 2, 3]" using v(3,4) by auto
  have "live (w_stdin ?v)" "w_stdout v' \<noteq> w_stdout ?v" using v(1,4) out smooth_live by simp_all
  from pass_through_verified [OF demo_digest demo_aead this(1) v(5,6) run this(2)]
  have "\<exists>pk. parse_key_bytes demo sample_recipient = Inr pk" by auto
  with run out show ?thesis by blast
qed

text \<open>
  C23. A success of \<open>verify\<close>, with or without \<open>--pass-through\<close>, means that the signature file
  holds a payload whose own key signed the digest of the whole standard input, and that this key
  is the one of \<open>--pub\<close> when one was given.
\<close>

theorem verify_success_signed:
  assumes "digest_laws c" and "live (w_stdin w)"
    and "verify_command c path ep limit pass w = (Ok (), w')"
  shows "\<exists>file raw payload pk. path = Some file \<and> w_files w file = Inr raw \<and>
    detach_armor c raw = Inr payload \<and> signed_by c payload (sha256 c (rd_bytes (w_stdin w))) pk \<and>
    (\<forall>s. ep = Some s \<longrightarrow> parse_key_bytes c s = Inr pk) \<and> (pass \<longrightarrow> ep \<noteq> None)"
  by (rule verify_command_Ok [OF assms])

theorem verify_success_signed_witness:
  "\<exists>v v' raw payload. verify_command demo (Some ''sig'') None None False v = (Ok (), v') \<and>
     w_files v ''sig'' = Inr raw \<and> detach_armor demo raw = Inr payload"
proof -
  obtain payload w' where p: "length payload = SIGNATURE_PAYLOAD_SIZE"
    "signed_by demo payload (sha256 demo [1, 2, 3]) (verifying_key_of demo sample_secret)"
    by (rule sample_signature [of True])
  let ?raw = "str_bytes (armor_text (armor_lines ''PIPE-K1'' (base64_encode demo payload)))"
  let ?v = "sample_world sample_data\<lparr>w_files := (\<lambda>_. Inr ?raw)\<rparr>"
  have "payload \<noteq> []" using p(1) by (auto simp: SIGNATURE_PAYLOAD_SIZE_def)
  then have det: "detach_armor demo ?raw = Inr payload"
    using detach_armor_printed [OF demo_codec] by simp
  obtain npub where np: "encode_npub demo (verifying_key_of demo sample_secret) = Some npub"
    using npub_total [OF demo_codec] by fastforce
  have v: "smooth (w_stdin ?v)" "faithful ?v" "rd_bytes (w_stdin ?v) = [1, 2, 3]"
    "length (rd_bytes (w_stdin ?v)) < 2 ^ 64" "w_files ?v ''sig'' = Inr ?raw"
    by (simp_all add: sample_data_def) (simp add: sample_world_def demo_world_def faithful_def)
  have "\<exists>v'. verify_command demo (Some ''sig'') None None False ?v = (Ok (), v') \<and>
      w_stdout v' = w_stdout ?v @ (if False then rd_bytes (w_stdin ?v) else [])"
    by (rule verify_command_complete [OF demo_digest demo_aead v(5) det p(1) _ np _ v(1,2,4)])
      (use p(2) v(3) in simp_all)
  then obtain v' where run: "verify_command demo (Some ''sig'') None None False ?v = (Ok (), v')" by blast
  from verify_success_signed [OF demo_digest smooth_live [OF v(1)] run] run show ?thesis by auto
qed

text \<open>
  C38. Taking off the armor that \<open>sign --armor\<close> or the git shim prints gives the signed payload
  back, for any non-empty bytes.
\<close>

theorem armor_roundtrip:
  assumes "codec_laws c" and "label \<in> {''PIPE-K1'', ''PGP''}" and "bs \<noteq> []"
  shows "detach_armor c (str_bytes (armor_text (armor_lines label (base64_encode c bs)))) = Inr bs"
  by (rule detach_armor_printed [OF assms])

theorem armor_roundtrip_witness:
  "detach_armor demo (str_bytes (armor_text (armor_lines ''PGP'' (base64_encode demo [1, 2, 255])))) = Inr [1, 2, 255]"
  by (rule armor_roundtrip [OF demo_codec]) simp_all

end
