(* ===== verification/GitShim.thy ===== *)
theory GitShim
  imports Signature "HOL-Library.Signed_Division"
begin

text \<open>
  The git plumbing shim (\<open>rust/src/main.rs\<close>): \<open>resolve_allowed_signers\<close>, \<open>write_status_fd\<close>
  and \<open>run_git_shim\<close> with its argument loop, its verification and signing protocols and the
  civil date it prints. What the shim asks of \<open>git config\<close> and of the file system's layout is
  a parameter (\<open>git_env\<close>); the files themselves are the world's.
\<close>

subsection \<open>The trust database\<close>

text \<open>
  \<open>g_config\<close> is the standard output of \<open>git config\<close> with the given arguments, when it succeeds;
  \<open>g_exists\<close>, \<open>g_is_dir\<close>, \<open>g_cwd\<close> and \<open>g_canonicalize\<close> are the file system queries.
\<close>

record git_env =
  g_config :: "string list \<Rightarrow> string option"
  g_exists :: "string \<Rightarrow> bool"
  g_is_dir :: "string \<Rightarrow> bool"
  g_cwd :: "string option"
  g_canonicalize :: "string \<Rightarrow> string option"

definition get_config :: "git_env \<Rightarrow> string \<Rightarrow> string option" where
  "get_config g key =
     (case g_config g [''config'', ''--get'', key] of
        None \<Rightarrow> None
      | Some out \<Rightarrow> let s = trim out in if s \<noteq> [] then Some s else None)"

definition ascii_lower :: "char \<Rightarrow> char" where
  "ascii_lower ch = (if 65 \<le> code ch \<and> code ch \<le> 90 then char_of (code ch + 32) else ch)"

definition get_bool :: "git_env \<Rightarrow> string \<Rightarrow> bool option" where
  "get_bool g key =
     (case g_config g [''config'', ''--bool'', ''--get'', key] of
        None \<Rightarrow> None
      | Some out \<Rightarrow> Some (map ascii_lower (trim out) \<noteq> ''false''))"

definition or_else :: "'a option \<Rightarrow> 'a option \<Rightarrow> 'a option" where
  "or_else a b = (case a of Some x \<Rightarrow> Some x | None \<Rightarrow> b)"

definition is_absolute :: "string \<Rightarrow> bool" where
  "is_absolute p = starts_with p ''/''"

text \<open>\<open>PathBuf::pop\<close> on the absolute path of a directory.\<close>

definition path_pop :: "string \<Rightarrow> string option" where
  "path_pop p =
     (if p = ''/'' \<or> p = [] then None
      else case dropWhile (\<lambda>ch. ch \<noteq> CHR ''/'') (rev p) of
             [] \<Rightarrow> Some []
           | _ # r \<Rightarrow> Some (if r = [] then ''/'' else rev r))"

definition both_names :: "string \<Rightarrow> string list" where
  "both_names dir = [path_join dir ''pipe-k1_signers'', path_join dir ''pipek1_signers'']"

text \<open>A \<open>.git\<close> file names the real directory, which may name a common one.\<close>

definition gitdir_paths :: "git_env \<Rightarrow> string \<Rightarrow> string \<Rightarrow> string list io" where
  "gitdir_paths g cwd rest =
     (let p = trim rest;
          gitdir_path = (if is_absolute p then p else path_join cwd p)
      in io_bind (fs_read_to_string (path_join gitdir_path ''commondir'')) (\<lambda>r.
         case r of
           Inl _ \<Rightarrow> io_return (both_names gitdir_path)
         | Inr cd_content \<Rightarrow>
             let cd = trim cd_content;
                 common = (if is_absolute cd then cd else path_join gitdir_path cd)
             in io_return (both_names gitdir_path @
                  both_names (case g_canonicalize g common of Some canon \<Rightarrow> canon | None \<Rightarrow> common))))"

fun gitfile_paths :: "git_env \<Rightarrow> string \<Rightarrow> string list \<Rightarrow> string list io" where
  "gitfile_paths g cwd [] = io_return []"
| "gitfile_paths g cwd (line # ls) =
     (case strip_prefix line ''gitdir:'' of
        None \<Rightarrow> gitfile_paths g cwd ls
      | Some rest \<Rightarrow>
          io_bind (gitdir_paths g cwd rest) (\<lambda>ps.
          io_bind (gitfile_paths g cwd ls) (\<lambda>qs. io_return (ps @ qs))))"

lemma path_pop_shorter:
  assumes "path_pop p = Some q"
  shows "length q < length p"
proof -
  let ?d = "dropWhile (\<lambda>ch. ch \<noteq> CHR ''/'') (rev p)"
  have p: "p \<noteq> ''/''" "p \<noteq> []" using assms unfolding path_pop_def by (metis option.distinct(1))+
  then have q: "(case ?d of [] \<Rightarrow> Some [] | _ # r \<Rightarrow> Some (if r = [] then ''/'' else rev r)) = Some q"
    using assms unfolding path_pop_def by (simp only: simp_thms if_False)
  have le: "length ?d \<le> length p" using length_dropWhile_le [of _ "rev p"] by simp
  show ?thesis
  proof (cases ?d)
    case Nil
    with q p(2) show ?thesis by simp
  next
    case (Cons a r)
    have a: "a = CHR ''/''" using Cons hd_dropWhile [of "\<lambda>ch. ch \<noteq> CHR ''/''" "rev p"]
      by (metis list.distinct(1) list.sel(1))
    show ?thesis
    proof (cases "r = []")
      case False
      with q Cons have "q = rev r" by simp
      with le Cons show ?thesis by simp
    next
      case True
      with q Cons have "q = ''/''" by simp
      moreover have "length p \<noteq> 1"
      proof
        assume "length p = 1"
        then obtain x where x: "p = [x]" by (metis length_0_conv length_Suc_conv One_nat_def)
        have "set ?d \<subseteq> set (rev p)" by (rule set_dropWhileD [THEN subsetI])
        with x Cons a have "x = CHR ''/''" by simp
        with x p(1) show False by blast
      qed
      moreover have "length p \<noteq> 0" using p(2) by simp
      ultimately show ?thesis by (simp add: nat_neq_iff)
    qed
  qed
qed

text \<open>The ascent from the working directory to the repository root.\<close>

function ascend :: "git_env \<Rightarrow> string \<Rightarrow> string list io" where
  "ascend g cwd w =
     (let dot_git = path_join cwd ''.git''
      in if g_is_dir g dot_git then io_return (both_names dot_git) w
         else if w_is_file w dot_git then
           io_bind (fs_read_to_string dot_git) (\<lambda>r.
             case r of Inl _ \<Rightarrow> io_return [] | Inr content \<Rightarrow> gitfile_paths g cwd (lines content)) w
         else (case path_pop cwd of None \<Rightarrow> io_return [] w | Some parent \<Rightarrow> ascend g parent w))"
  by pat_completeness auto
termination
  by (relation "measure (\<lambda>(g, cwd, w). length cwd)") (auto dest: path_pop_shorter)

declare ascend.simps [simp del]

text \<open>The candidate files, in the order they are tried.\<close>

definition candidate_paths :: "git_env \<Rightarrow> string list io" where
  "candidate_paths g =
     (let configured = (case or_else (get_config g ''pipe-k1.allowedSignersFile'')
                                     (get_config g ''pipek1.allowedSignersFile'') of
                          Some p \<Rightarrow> [p] | None \<Rightarrow> []);
          allow_in_tree = (case or_else (get_bool g ''pipe-k1.allowInTreeSigners'')
                                        (get_bool g ''pipek1.allowInTreeSigners'') of
                             Some b \<Rightarrow> b | None \<Rightarrow> True)
      in io_bind (if allow_in_tree then
                    io_bind (env_var ''GIT_DIR'') (\<lambda>git_dir.
                    io_bind (case g_cwd g of None \<Rightarrow> io_return [] | Some cwd \<Rightarrow> ascend g cwd) (\<lambda>found.
                    io_return ((case git_dir of Some d \<Rightarrow> both_names d | None \<Rightarrow> []) @ found)))
                  else io_return []) (\<lambda>in_tree.
         io_bind (env_var ''HOME'') (\<lambda>home.
         io_return (configured @ in_tree @
           (case home of
              Some h \<Rightarrow> [path_join h ''.config/pipe-k1/allowed_signers'',
                         path_join h ''.config/pipek1/allowed_signers'']
            | None \<Rightarrow> [])))))"

text \<open>One line of a signers file: an identity of any number of words, then the key.\<close>

definition add_signer_line ::
  "crypto \<Rightarrow> string \<Rightarrow> (string \<times> bytes) list \<Rightarrow> (string \<times> bytes) list io" where
  "add_signer_line c line signers =
     (let trimmed = trim line in
      if trimmed = [] \<or> starts_with trimmed ''#'' then io_return signers
      else let tokens = split_whitespace trimmed in
      if tokens = [] then io_return signers
      else (case parse_key_bytes c (last tokens) of
              Inl _ \<Rightarrow> io_return signers
            | Inr key_bytes \<Rightarrow>
                io_bind (if 1 < length tokens then io_return (join '' '' (butlast tokens))
                         else io_unwrap ''called `Result::unwrap()` on an `Err` value''
                                (encode_npub c key_bytes)) (\<lambda>identity.
                io_return (if \<exists>e \<in> set signers. snd e = key_bytes then signers
                           else signers @ [(identity, key_bytes)]))))"

fun add_signer_lines ::
  "crypto \<Rightarrow> string list \<Rightarrow> (string \<times> bytes) list \<Rightarrow> (string \<times> bytes) list io" where
  "add_signer_lines c [] signers = io_return signers"
| "add_signer_lines c (line # ls) signers =
     io_bind (add_signer_line c line signers) (\<lambda>signers'. add_signer_lines c ls signers')"

fun add_signer_files ::
  "crypto \<Rightarrow> git_env \<Rightarrow> string list \<Rightarrow> (string \<times> bytes) list \<Rightarrow> (string \<times> bytes) list io" where
  "add_signer_files c g [] signers = io_return signers"
| "add_signer_files c g (path # paths) signers =
     io_bind (if g_exists g path then
                io_bind (fs_read_to_string path) (\<lambda>r.
                case r of
                  Inl _ \<Rightarrow> io_return signers
                | Inr content \<Rightarrow> add_signer_lines c (lines content) signers)
              else io_return signers) (\<lambda>signers'.
     add_signer_files c g paths signers')"

definition resolve_allowed_signers :: "crypto \<Rightarrow> git_env \<Rightarrow> (string \<times> bytes) list io" where
  "resolve_allowed_signers c g =
     io_bind (candidate_paths g) (\<lambda>paths. add_signer_files c g paths [])"

subsection \<open>The status descriptor\<close>

text \<open>Errors of these writes are ignored; the descriptor stays open.\<close>

definition write_status_fd :: "int option \<Rightarrow> string \<Rightarrow> unit io" where
  "write_status_fd status_fd line =
     (case status_fd of
        None \<Rightarrow> io_return ()
      | Some fd_num \<Rightarrow>
          if fd_num = 1 then
            io_bind (stdout_write_all (str_bytes line)) (\<lambda>_. io_bind stdout_flush (\<lambda>_. io_return ()))
          else if fd_num = 2 then eprintln line
          else if fd_num = -1 then io_panic ''fd != -1''
          else (\<lambda>w. (Ok (), if w_fd_flags w fd_num < 0 \<or> fd_num \<in> set (w_closed w) then w
                            else w\<lparr>w_fd_out := w_fd_out w @ [(fd_num, line)]\<rparr>)))"

subsection \<open>Arguments\<close>

record shim_opts =
  status_fd :: "int option"
  key_id :: "string option"
  is_verify :: bool
  verify_sig_path :: "string option"
  verify_data_path :: "string option"

definition no_opts :: shim_opts where
  "no_opts = \<lparr> status_fd = None, key_id = None, is_verify = False, verify_sig_path = None,
     verify_data_path = None \<rparr>"

fun shim_args :: "shim_opts \<Rightarrow> string list \<Rightarrow> shim_opts" where
  "shim_args opts [] = opts"
| "shim_args opts (arg # rest) =
     (case strip_prefix arg ''--status-fd='' of
        Some num \<Rightarrow> shim_args (opts\<lparr>status_fd := parse_i32 num\<rparr>) rest
      | None \<Rightarrow>
      if arg = ''--status-fd'' then
        (case rest of
           [] \<Rightarrow> opts
         | num # rest' \<Rightarrow> shim_args (opts\<lparr>status_fd := parse_i32 num\<rparr>) rest')
      else if arg = ''--verify'' \<or> arg = ''-v'' then
        (case rest of
           [] \<Rightarrow> opts\<lparr>is_verify := True\<rparr>
         | [sig] \<Rightarrow> opts\<lparr>is_verify := True, verify_sig_path := Some sig\<rparr>
         | sig # data # rest' \<Rightarrow>
             shim_args (opts\<lparr>is_verify := True, verify_sig_path := Some sig,
               verify_data_path := Some data\<rparr>) rest')
      else if arg = ''-u'' then
        (case rest of [] \<Rightarrow> opts | kid # rest' \<Rightarrow> shim_args (opts\<lparr>key_id := Some kid\<rparr>) rest')
      else if starts_with arg ''-u'' \<and> 2 < length arg then
        shim_args (opts\<lparr>key_id := Some (drop 2 arg)\<rparr>) rest
      else if contains arg ''u'' \<and> starts_with arg ''-'' \<and> \<not> starts_with arg ''--'' then
        (case rest of [] \<Rightarrow> opts | kid # rest' \<Rightarrow> shim_args (opts\<lparr>key_id := Some kid\<rparr>) rest')
      else shim_args opts rest)"

declare shim_args.simps [simp del]

subsection \<open>The date of a signature\<close>

text \<open>
  The civil date as the code computes it, on \<open>u32\<close> and \<open>i64\<close> values: the unsigned
  subtractions wrap (the release profile has no overflow checks).
\<close>

definition civil_date :: "u32 \<Rightarrow> int \<times> u32 \<times> u32" where
  "civil_date days =
     (let z = uint days + 719468;
          era = (if 0 \<le> z then z else z - 146096) sdiv 146097;
          doe = word_of_int (z - era * 146097) :: u32;
          yoe = (doe - doe div 1024 + doe div 1461 - doe div 142401) div 365;
          y = uint yoe + era * 400;
          doy = doe - (365 * yoe + yoe div 4 - yoe div 100);
          mp = (5 * doy + 2) div 153;
          d = doy - (153 * mp + 2) div 5 + 1;
          m = (if mp < 10 then mp + 3 else mp - 9);
          y_final = (if m \<le> 2 then y + 1 else y)
      in (y_final, m, d))"

definition date_str :: "u32 \<Rightarrow> string" where
  "date_str timestamp =
     (case civil_date (timestamp div 86400) of (y, m, d) \<Rightarrow>
        show_padded 4 (nat y) @ ''-'' @ show_padded 2 (unat m) @ ''-'' @ show_padded 2 (unat d))"

subsection \<open>Verification\<close>

definition nl :: string where
  "nl = [newline]"

definition quote_char :: char where
  "quote_char = CHR 0x22"

definition shim_read_signature :: "crypto \<Rightarrow> shim_opts \<Rightarrow> bytes io" where
  "shim_read_signature c opts =
     io_bind (case verify_sig_path opts of
                None \<Rightarrow> io_err (UsageError ''Missing signature path for --verify'')
              | Some p \<Rightarrow> io_return p) (\<lambda>sig_p.
     io_bind (fs_read sig_p) (\<lambda>r.
     io_bind (io_try (\<lambda>e. UsageError (''Cannot read signature: '' @ io_msg e)) r) (\<lambda>sig_raw.
     io_bind (io_try id (detach_armor c sig_raw)) (\<lambda>sig_bytes.
     if length sig_bytes \<noteq> SIGNATURE_PAYLOAD_SIZE then
       io_bind (write_status_fd (status_fd opts)
         (''[GNUPG:] NEWSIG'' @ nl @ ''[GNUPG:] ERRSIG 0000000000000000 1 8 00 0000000000 9'' @ nl)) (\<lambda>_.
       io_bind (eprintln ''pipe-k1-git-shim: error: malformed or unrecognized signature format'') (\<lambda>_.
       io_err (WireCorruption ''malformed or unrecognized signature format'')))
     else io_return sig_bytes))))"

definition shim_read_data :: "shim_opts \<Rightarrow> bytes io" where
  "shim_read_data opts =
     (let data_p = (case verify_data_path opts of None \<Rightarrow> ''-'' | Some p \<Rightarrow> p)
      in if data_p = ''-'' then io_bind stdin_read_to_end (io_try from_io)
         else io_bind (fs_read data_p) (io_try from_io))"

definition find_identity :: "bytes \<Rightarrow> (string \<times> bytes) list \<Rightarrow> string option" where
  "find_identity pk signers = map_option fst (find (\<lambda>e. snd e = pk) signers)"

text \<open>The status lines and messages of a good signature.\<close>

definition report_good ::
  "crypto \<Rightarrow> int option \<Rightarrow> bytes \<Rightarrow> bytes \<Rightarrow> string \<Rightarrow> (string \<times> bytes) list \<Rightarrow> unit io" where
  "report_good c sfd sig_payload signer_pk npub allowed =
     (let hex_pk = hex_encode c signer_pk;
          timestamp = from_be (slice sig_payload 5 9) :: u32;
          date = date_str timestamp;
          matched = find_identity signer_pk allowed;
          shown = (case matched of Some ident \<Rightarrow> ident | None \<Rightarrow> npub);
          level = (case matched of Some _ \<Rightarrow> ''ultimate'' | None \<Rightarrow> ''unknown'');
          trust = (case matched of Some _ \<Rightarrow> ''TRUST_ULTIMATE'' | None \<Rightarrow> ''TRUST_UNDEFINED'')
      in io_bind (write_status_fd sfd (''[GNUPG:] NEWSIG'' @ nl)) (\<lambda>_.
         io_bind (eprintln (''gpg: Signature made '' @ date @ '' using secp256k1 key '' @ hex_pk)) (\<lambda>_.
         io_bind (eprintln (''gpg: Good signature from '' @ [quote_char] @ shown @ [quote_char] @ '' ['' @ level @ '']'')) (\<lambda>_.
         io_bind (write_status_fd sfd (''[GNUPG:] GOODSIG '' @ hex_pk @ '' '' @ shown @ nl)) (\<lambda>_.
         io_bind (write_status_fd sfd (''[GNUPG:] VALIDSIG '' @ hex_pk @ '' '' @ date @ '' '' @
           show_nat (unat timestamp) @ '' 0 4 0 1 8 00 '' @ hex_pk @ nl)) (\<lambda>_.
         write_status_fd sfd (''[GNUPG:] '' @ trust @ '' 0 pgp'' @ nl)))))))"

definition report_bad :: "crypto \<Rightarrow> int option \<Rightarrow> bytes \<Rightarrow> string \<Rightarrow> unit io" where
  "report_bad c sfd sig_payload e =
     (let signer_pk = slice sig_payload 9 41; hex_pk = hex_encode c signer_pk
      in io_bind (io_unwrap ''called `Result::unwrap()` on an `Err` value'' (encode_npub c signer_pk)) (\<lambda>npub.
         io_bind (write_status_fd sfd (''[GNUPG:] NEWSIG'' @ nl)) (\<lambda>_.
         io_bind (write_status_fd sfd (''[GNUPG:] BADSIG '' @ hex_pk @ '' '' @ npub @ nl)) (\<lambda>_.
         io_bind (eprintln (''pipe-k1-git-shim: signature verification failed: '' @ e)) (\<lambda>_.
         io_err (AuthFailure (''signature verification failed: '' @ e)))))))"

definition shim_verify :: "crypto \<Rightarrow> git_env \<Rightarrow> shim_opts \<Rightarrow> unit io" where
  "shim_verify c g opts =
     io_bind (shim_read_signature c opts) (\<lambda>sig_payload.
     io_bind (shim_read_data opts) (\<lambda>data_bytes.
     case verify_stream_payload c sig_payload (sha256 c data_bytes) of
       Inr signer_pk \<Rightarrow>
         io_bind (io_unwrap ''called `Result::unwrap()` on an `Err` value'' (encode_npub c signer_pk)) (\<lambda>npub.
         io_bind (resolve_allowed_signers c g) (\<lambda>allowed.
         report_good c (status_fd opts) sig_payload signer_pk npub allowed))
     | Inl e \<Rightarrow> report_bad c (status_fd opts) sig_payload e))"

subsection \<open>Signing\<close>

definition check_key_id :: "crypto \<Rightarrow> shim_opts \<Rightarrow> bytes \<Rightarrow> unit io" where
  "check_key_id c opts pk_x =
     (case key_id opts of
        None \<Rightarrow> io_return ()
      | Some kid \<Rightarrow>
          (case parse_key_bytes c kid of
             Inl _ \<Rightarrow> io_return ()
           | Inr exp_bytes \<Rightarrow>
               if exp_bytes \<noteq> pk_x then
                 io_bind (write_status_fd (status_fd opts) (''[GNUPG:] INV_SGNR 0 '' @ kid @ nl)) (\<lambda>_.
                 io_bind (eprintln (''pipe-k1-git-shim: error: signing key '' @ kid @
                   '' does not match configured secret key'')) (\<lambda>_.
                 io_err (UsageError (''signing key '' @ kid @ '' does not match configured secret key''))))
               else io_return ()))"

definition shim_sign :: "crypto \<Rightarrow> shim_opts \<Rightarrow> unit io" where
  "shim_sign c opts =
     io_bind (load_signing_key c no_key_args) (\<lambda>sk.
     let pk_x = verifying_key_of c sk; hex_pk = hex_encode c pk_x
     in io_bind (check_key_id c opts pk_x) (\<lambda>_.
        io_bind (io_bind stdin_read_to_end (io_try from_io)) (\<lambda>commit_data.
        io_bind now_timestamp (\<lambda>now.
        io_bind (io_unwrap ''signing failed'' (sign_stream_payload c sk (sha256 c commit_data) now)) (\<lambda>sig_payload.
        io_bind (write_status_fd (status_fd opts) (''[GNUPG:] SIG_CREATED D 1 8 00 '' @
          show_nat (unat now) @ '' '' @ hex_pk @ nl)) (\<lambda>_.
        print_lines (armor_lines ''PGP'' (base64_encode c sig_payload))))))))"

definition run_git_shim :: "crypto \<Rightarrow> git_env \<Rightarrow> string list \<Rightarrow> unit io" where
  "run_git_shim c g args =
     (let opts = shim_args no_opts args
      in if is_verify opts then shim_verify c g opts else shim_sign c opts)"

subsection \<open>The trust database has one identity per key\<close>

definition signer_db :: "(string \<times> bytes) list \<Rightarrow> bool" where
  "signer_db signers \<longleftrightarrow> distinct (map snd signers) \<and> (\<forall>e \<in> set signers. length (snd e) = 32)"

lemma add_signer_line_cases:
  assumes "add_signer_line c line signers w = (Ok signers', w')"
  shows "signers' = signers \<or>
    (\<exists>ident k. signers' = signers @ [(ident, k)] \<and> length k = 32 \<and> k \<notin> snd ` set signers)"
proof (cases "trim line = [] \<or> starts_with (trim line) ''#'' \<or> split_whitespace (trim line) = []")
  case True
  with assms show ?thesis by (auto simp: add_signer_line_def Let_def split: if_splits)
next
  case False
  show ?thesis
  proof (cases "parse_key_bytes c (last (split_whitespace (trim line)))")
    case (Inl e)
    with False assms show ?thesis by (simp add: add_signer_line_def Let_def)
  next
    case (Inr k)
    have len: "length k = 32" using Inr by (rule parse_key_bytes_length)
    from False Inr assms obtain ident where
      "signers' = (if \<exists>e \<in> set signers. snd e = k then signers else signers @ [(ident, k)])"
      unfolding add_signer_line_def Let_def by (auto elim!: io_bind_OkE simp del: append.simps)
    with len show ?thesis by (auto simp: image_iff)
  qed
qed

lemma add_signer_line_db:
  "add_signer_line c line signers w = (Ok signers', w') \<Longrightarrow> signer_db signers \<Longrightarrow>
     signer_db signers' \<and> (\<exists>new. signers' = signers @ new)"
  using add_signer_line_cases [of c line signers w signers' w'] by (auto simp: signer_db_def)

lemma add_signer_lines_db:
  "add_signer_lines c ls signers w = (Ok signers', w') \<Longrightarrow> signer_db signers \<Longrightarrow>
     signer_db signers' \<and> (\<exists>new. signers' = signers @ new)"
proof (induction ls arbitrary: signers w)
  case (Cons line ls)
  then show ?case
    using add_signer_line_db by (fastforce elim!: io_bind_OkE)
qed simp

lemma add_signer_files_db:
  "add_signer_files c g paths signers w = (Ok signers', w') \<Longrightarrow> signer_db signers \<Longrightarrow>
     signer_db signers' \<and> (\<exists>new. signers' = signers @ new)"
proof (induction paths arbitrary: signers w)
  case (Cons path paths)
  obtain mid w1 where m: "(if g_exists g path then
                io_bind (fs_read_to_string path) (\<lambda>r.
                case r of
                  Inl _ \<Rightarrow> io_return signers
                | Inr content \<Rightarrow> add_signer_lines c (lines content) signers)
              else io_return signers) w = (Ok mid, w1)"
    and rest: "add_signer_files c g paths mid w1 = (Ok signers', w')"
    using Cons.prems(1) by (auto elim: io_bind_OkE)
  have "signer_db mid \<and> (\<exists>new. mid = signers @ new)"
    using m Cons.prems(2) add_signer_lines_db
    by (fastforce elim!: io_bind_OkE split: if_splits sum.splits)
  with Cons.IH [OF rest] show ?case by auto
qed simp

lemma resolve_allowed_signers_db:
  assumes "resolve_allowed_signers c g w = (Ok signers, w')"
  shows "signer_db signers"
proof -
  obtain paths w1 where "add_signer_files c g paths [] w1 = (Ok signers, w')"
    using assms by (auto simp: resolve_allowed_signers_def elim: io_bind_OkE)
  moreover have "signer_db []" by (simp add: signer_db_def)
  ultimately show ?thesis using add_signer_files_db by blast
qed

lemma find_identity_Some:
  assumes "find_identity pk signers = Some ident"
  shows "(ident, pk) \<in> set signers"
proof -
  obtain e where e: "find (\<lambda>e. snd e = pk) signers = Some e" "ident = fst e"
    using assms by (auto simp: find_identity_def)
  then have "e \<in> set signers" "snd e = pk" by (auto simp: find_Some_iff)
  with e(2) show ?thesis by auto
qed

lemma find_identity_None: "find_identity pk signers = None \<longleftrightarrow> pk \<notin> snd ` set signers"
  by (force simp: find_identity_def find_None_iff)

subsection \<open>What the status descriptor says\<close>

text \<open>The lines git reads as an acceptance.\<close>

definition good_line :: "string \<Rightarrow> bool" where
  "good_line l \<longleftrightarrow> starts_with l ''[GNUPG:] GOODSIG'' \<or> starts_with l ''[GNUPG:] VALIDSIG'' \<or>
     starts_with l ''[GNUPG:] TRUST_''"

definition silent :: "'a io \<Rightarrow> bool" where
  "silent m \<longleftrightarrow> (\<forall>w. \<exists>ls. w_fd_out (snd (m w)) = w_fd_out w @ ls \<and> (\<forall>e \<in> set ls. \<not> good_line (snd e)))"

named_theorems silent_rules

lemma silent_keeps: "keeps w_fd_out m \<Longrightarrow> silent m"
  by (simp add: silent_def keeps_def)

lemma silent_bind [silent_rules]:
  assumes "silent m" and "\<And>x. silent (f x)"
  shows "silent (io_bind m f)"
  unfolding silent_def
proof
  fix w
  obtain r w1 where m: "m w = (r, w1)" by fastforce
  obtain ls where ls: "w_fd_out w1 = w_fd_out w @ ls" "\<forall>e \<in> set ls. \<not> good_line (snd e)"
    using assms(1) m unfolding silent_def by (metis snd_conv)
  show "\<exists>ls. w_fd_out (snd (io_bind m f w)) = w_fd_out w @ ls \<and> (\<forall>e \<in> set ls. \<not> good_line (snd e))"
  proof (cases r)
    case (Ok x)
    obtain ls' where "w_fd_out (snd (f x w1)) = w_fd_out w1 @ ls'" "\<forall>e \<in> set ls'. \<not> good_line (snd e)"
      using assms(2) unfolding silent_def by metis
    with ls m Ok show ?thesis by (intro exI [of _ "ls @ ls'"]) (auto simp: io_bind_def)
  qed (use ls m in \<open>auto simp: io_bind_def\<close>)
qed

lemma silent_basic [silent_rules]:
  "silent (io_return x)" "silent (io_err e)" "silent (io_panic s)"
  by (simp_all add: silent_def)

lemma silent_try [silent_rules]: "silent (io_try g r)"
  by (rule silent_keeps) (rule keeps_try)

lemma silent_unwrap [silent_rules]: "silent (io_unwrap s r)"
  by (rule silent_keeps) (rule keeps_unwrap)

lemma silent_case_option [silent_rules]:
  "silent m \<Longrightarrow> (\<And>x. silent (n x)) \<Longrightarrow> silent (case r of None \<Rightarrow> m | Some x \<Rightarrow> n x)"
  by (cases r) auto

lemma silent_if [silent_rules]: "silent m \<Longrightarrow> silent n \<Longrightarrow> silent (if b then m else n)"
  by simp

lemma silent_reads [silent_rules]:
  "silent (fs_read p)" "silent stdin_read_to_end" "silent (eprintln s)"
  by (rule silent_keeps; simp add: keeps_def fs_read_def stdin_read_to_end_def eprintln_def
      split: prod.splits)+

lemma write_status_lines:
  "\<exists>ls. w_fd_out (snd (write_status_fd sfd l w)) = w_fd_out w @ ls \<and> set (map snd ls) \<subseteq> {l}"
proof (cases "sfd = Some 1")
  case True
  have "keeps w_fd_out (write_status_fd sfd l)"
    unfolding write_status_fd_def True option.case if_P [OF refl]
    by (intro quiet_rules) (auto simp: keeps_def stdout_write_all_def stdout_flush_def split: option.splits)
  then show ?thesis by (intro exI [of _ "[]"]) (simp add: keeps_def)
next
  case False
  then show ?thesis
    by (auto simp: write_status_fd_def eprintln_def split: option.splits)
qed

lemma silent_status [silent_rules]:
  assumes "\<not> good_line l"
  shows "silent (write_status_fd sfd l)"
  unfolding silent_def
proof
  fix w
  obtain ls where "w_fd_out (snd (write_status_fd sfd l w)) = w_fd_out w @ ls" "set (map snd ls) \<subseteq> {l}"
    using write_status_lines by blast
  with assms show "\<exists>ls. w_fd_out (snd (write_status_fd sfd l w)) = w_fd_out w @ ls \<and>
      (\<forall>e \<in> set ls. \<not> good_line (snd e))"
    by (intro exI [of _ ls]) auto
qed

lemma silent_read_signature: "silent (shim_read_signature c opts)"
  unfolding shim_read_signature_def
  by (intro silent_rules) (simp add: good_line_def)

lemma silent_read_data: "silent (shim_read_data opts)"
  unfolding shim_read_data_def Let_def by (intro silent_rules)

lemma silent_report_bad: "silent (report_bad c sfd pl e)"
  unfolding report_bad_def Let_def
  by (intro silent_rules) (simp_all add: good_line_def)

text \<open>Looking up the trust database changes nothing.\<close>

lemma keeps_gitfile_paths: "keeps f (gitfile_paths g cwd ls)"
proof (induction ls)
  case (Cons line ls)
  then show ?case
    unfolding gitfile_paths.simps gitdir_paths_def Let_def by (intro quiet_rules)
qed (simp only: gitfile_paths.simps keeps_return)

lemma keeps_ascend: "keeps f (ascend g cwd)"
proof -
  have "f (snd (ascend g cwd w)) = f w" for w
  proof (induction g cwd w rule: ascend.induct)
    case (1 g cwd w)
    have gitfile: "keeps f (io_bind (fs_read_to_string p) (\<lambda>r.
        case r of Inl _ \<Rightarrow> io_return [] | Inr content \<Rightarrow> gitfile_paths g cwd (lines content)))" for p
      by (intro quiet_rules keeps_gitfile_paths)
    show ?case
    proof (cases "g_is_dir g (path_join cwd ''.git'') \<or> w_is_file w (path_join cwd ''.git'')")
      case True
      with gitfile show ?thesis
        unfolding ascend.simps [of g cwd w] Let_def by (auto simp: keeps_def)
    next
      case False
      with "1.IH" [OF refl] show ?thesis
        unfolding ascend.simps [of g cwd w] Let_def by (simp split: option.split)
    qed
  qed
  then show ?thesis by (simp add: keeps_def)
qed

lemma keeps_candidate_paths: "keeps f (candidate_paths g)"
  unfolding candidate_paths_def Let_def by (intro quiet_rules keeps_ascend)

lemma keeps_add_signer_lines: "keeps f (add_signer_lines c ls signers)"
proof (induction ls arbitrary: signers)
  case (Cons line ls)
  then show ?case
    unfolding add_signer_lines.simps add_signer_line_def Let_def by (intro quiet_rules)
qed (simp only: add_signer_lines.simps keeps_return)

lemma keeps_add_signer_files: "keeps f (add_signer_files c g paths signers)"
proof (induction paths arbitrary: signers)
  case (Cons path paths)
  then show ?case
    unfolding add_signer_files.simps by (intro quiet_rules keeps_add_signer_lines)
qed (simp only: add_signer_files.simps keeps_return)

lemma keeps_resolve: "keeps f (resolve_allowed_signers c g)"
  unfolding resolve_allowed_signers_def
  by (intro quiet_rules keeps_candidate_paths keeps_add_signer_files)

subsection \<open>What the shim accepts\<close>

lemma shim_read_signature_Ok:
  assumes "shim_read_signature c opts w = (Ok payload, w')"
  shows "w' = w \<and> length payload = SIGNATURE_PAYLOAD_SIZE \<and>
    (\<exists>p raw. verify_sig_path opts = Some p \<and> w_files w p = Inr raw \<and> detach_armor c raw = Inr payload)"
  using assms unfolding shim_read_signature_def fs_read_def
  by (auto elim!: io_bind_OkE io_try_OkE split: option.splits if_splits)

text \<open>The data a signature is checked against: a file, or standard input.\<close>

definition signed_data :: "shim_opts \<Rightarrow> world \<Rightarrow> io_error + bytes" where
  "signed_data opts w =
     (case verify_data_path opts of
        None \<Rightarrow> fst (read_to_end [] (w_stdin w))
      | Some p \<Rightarrow> if p = ''-'' then fst (read_to_end [] (w_stdin w)) else w_files w p)"

lemma shim_read_data_run:
  "\<exists>w'. shim_read_data opts w =
     (case signed_data opts w of Inl e \<Rightarrow> Err (from_io e) | Inr d \<Rightarrow> Ok d, w') \<and>
     w' = w\<lparr>w_stdin := w_stdin w'\<rparr>"
  by (auto simp: shim_read_data_def signed_data_def io_bind_def stdin_read_to_end_def fs_read_def
      io_try_def Let_def split: option.splits sum.splits prod.splits)

lemma silent_D: "silent m \<Longrightarrow> m w = (r, w') \<Longrightarrow> w_fd_out w' = w_fd_out w @ ls \<Longrightarrow>
    e \<in> set ls \<Longrightarrow> \<not> good_line (snd e)"
  unfolding silent_def by (metis same_append_eq snd_conv)

lemma shim_verify_good:
  assumes "digest_laws c" and run: "shim_verify c g opts w = (r, w')"
    and out: "w_fd_out w' = w_fd_out w @ ls" "e \<in> set ls" "good_line (snd e)"
  shows "\<exists>p raw payload data pk. verify_sig_path opts = Some p \<and> w_files w p = Inr raw \<and>
    detach_armor c raw = Inr payload \<and> signed_data opts w = Inr data \<and>
    signed_by c payload (sha256 c data) pk"
proof -
  obtain q w1 where rs: "shim_read_signature c opts w = (q, w1)" by fastforce
  show ?thesis
  proof (cases "\<exists>payload. q = Ok payload")
    case False
    then have "w' = w1" using run rs by (cases q) (auto simp: shim_verify_def io_bind_def)
    with silent_D [OF silent_read_signature rs] out show ?thesis by blast
  next
    case True
    then obtain payload where q: "q = Ok payload" by blast
    note R = shim_read_signature_Ok [OF rs [unfolded q]]
    obtain w2 where rd: "shim_read_data opts w = (case signed_data opts w of Inl e \<Rightarrow> Err (from_io e) | Inr d \<Rightarrow> Ok d, w2)"
      and w2: "w2 = w\<lparr>w_stdin := w_stdin w2\<rparr>"
      using shim_read_data_run [of opts w] by blast
    have fd2: "w_fd_out w2 = w_fd_out w" by (subst w2) simp
    show ?thesis
    proof (cases "signed_data opts w")
      case (Inl er)
      then have "w' = w2" using run rs q R rd by (simp add: shim_verify_def io_bind_def)
      with fd2 out show ?thesis by simp
    next
      case (Inr data)
      have len: "length (sha256 c data) = 32" using assms(1) by (simp add: digest_laws_def)
      show ?thesis
      proof (cases "verify_stream_payload c payload (sha256 c data)")
        case (Inl er)
        then have "report_bad c (status_fd opts) payload er w2 = (r, w')"
          using run rs q R rd \<open>signed_data opts w = Inr data\<close> by (simp add: shim_verify_def io_bind_def)
        from silent_D [OF silent_report_bad this] out fd2 show ?thesis by simp
      next
        case (Inr pk)
        with R len have "signed_by c payload (sha256 c data) pk" by (simp add: verify_stream_payload_iff)
        with R \<open>signed_data opts w = Inr data\<close> show ?thesis by blast
      qed
    qed
  qed
qed

lemma keeps_fd_out_intake: "keeps intake_view m \<Longrightarrow> keeps w_fd_out m"
proof (erule keeps_via)
  fix v w assume "intake_view v = intake_view w"
  then show "w_fd_out v = w_fd_out w" by (rule intake_view_keeps) (simp add: off_intake_def)
qed

lemma keeps_fd_out_print: "keeps w_fd_out (print_lines ls)"
proof (induction ls)
  case (Cons l ls)
  have "keeps w_fd_out (println l)"
    unfolding println_def
    by (intro quiet_rules) (auto simp: keeps_def stdout_write_all_def split: option.splits)
  with Cons show ?case unfolding print_lines.simps by (intro quiet_rules)
qed (simp only: print_lines.simps keeps_return)

lemma silent_case_sum [silent_rules]:
  "(\<And>e. silent (m e)) \<Longrightarrow> (\<And>x. silent (n x)) \<Longrightarrow> silent (case r of Inl e \<Rightarrow> m e | Inr x \<Rightarrow> n x)"
  by (cases r) auto

lemma silent_more [silent_rules]:
  "silent (io_get h)" "silent (load_secret_key c args)" "silent (print_lines ls)"
  by (rule silent_keeps, rule keeps_get keeps_fd_out_intake [OF keeps_load_secret_key] keeps_fd_out_print)+

lemma silent_shim_sign: "silent (shim_sign c opts)"
  unfolding shim_sign_def load_signing_key_def check_key_id_def now_timestamp_def Let_def
  by (intro silent_rules) (simp_all add: good_line_def)

text \<open>When every key can be shown as an npub, the trust database resolves, and only to files' entries.\<close>

lemma add_signer_line_total:
  assumes "codec_laws c"
  shows "\<exists>signers'. add_signer_line c line signers w = (Ok signers', w)"
proof (cases "trim line = [] \<or> starts_with (trim line) ''#'' \<or> split_whitespace (trim line) = []")
  case True
  then show ?thesis by (auto simp: add_signer_line_def Let_def)
next
  case False
  show ?thesis
  proof (cases "parse_key_bytes c (last (split_whitespace (trim line)))")
    case (Inl e)
    with False show ?thesis by (simp add: add_signer_line_def Let_def)
  next
    case (Inr k)
    obtain npub where "encode_npub c k = Some npub"
      using npub_total [OF assms parse_key_bytes_length [OF Inr]] by blast
    with False Inr show ?thesis by (simp add: add_signer_line_def Let_def del: append.simps)
  qed
qed

lemma add_signer_lines_total:
  "codec_laws c \<Longrightarrow> \<exists>signers'. add_signer_lines c ls signers w = (Ok signers', w)"
proof (induction ls arbitrary: signers)
  case (Cons line ls)
  obtain s1 where "add_signer_line c line signers w = (Ok s1, w)"
    using add_signer_line_total [OF Cons.prems] by blast
  with Cons.IH [OF Cons.prems, of s1] show ?case by (simp add: io_bind_def)
qed simp

lemma add_signer_files_total:
  "codec_laws c \<Longrightarrow> \<exists>signers'. add_signer_files c g paths signers w = (Ok signers', w)"
proof (induction paths arbitrary: signers)
  case (Cons path paths)
  have "\<exists>s1. (if g_exists g path then
                io_bind (fs_read_to_string path) (\<lambda>r.
                case r of
                  Inl _ \<Rightarrow> io_return signers
                | Inr content \<Rightarrow> add_signer_lines c (lines content) signers)
              else io_return signers) w = (Ok s1, w)"
    using add_signer_lines_total [OF Cons.prems]
    by (auto simp: fs_read_to_string_def io_bind_def split: sum.split option.split)
  then obtain s1 where s1: "(if g_exists g path then
                io_bind (fs_read_to_string path) (\<lambda>r.
                case r of
                  Inl _ \<Rightarrow> io_return signers
                | Inr content \<Rightarrow> add_signer_lines c (lines content) signers)
              else io_return signers) w = (Ok s1, w)" by blast
  from Cons.IH [OF Cons.prems, of s1] show ?case
    by (simp only: add_signer_files.simps io_bind_def s1 prod.case res.case)
qed simp

lemma gitfile_paths_total: "\<exists>ps. gitfile_paths g cwd ls w = (Ok ps, w)"
proof (induction ls)
  case (Cons line ls)
  have "\<exists>ps. gitdir_paths g cwd rest w = (Ok ps, w)" for rest
    by (auto simp: gitdir_paths_def io_bind_def fs_read_to_string_def Let_def
        split: sum.split option.split)
  note dir = this
  obtain qs where qs: "gitfile_paths g cwd ls w = (Ok qs, w)" using Cons by blast
  show ?case
  proof (cases "strip_prefix line ''gitdir:''")
    case None
    with qs show ?thesis by simp
  next
    case (Some rest)
    obtain ps where "gitdir_paths g cwd rest w = (Ok ps, w)" using dir by blast
    with qs Some show ?thesis by (simp add: io_bind_def)
  qed
qed simp

lemma ascend_total: "\<exists>ps. ascend g cwd w = (Ok ps, w)"
proof (induction g cwd w rule: ascend.induct)
  case (1 g cwd w)
  have gf: "\<exists>ps. io_bind (fs_read_to_string p) (\<lambda>r.
        case r of Inl _ \<Rightarrow> io_return [] | Inr content \<Rightarrow> gitfile_paths g cwd (lines content)) w = (Ok ps, w)" for p
    using gitfile_paths_total
    by (auto simp: io_bind_def fs_read_to_string_def split: sum.split option.split)
  with "1.IH" [OF refl] show ?case
    unfolding ascend.simps [of g cwd w] Let_def by (auto split: option.split)
qed

lemma resolve_total:
  assumes "codec_laws c"
  shows "\<exists>allowed. resolve_allowed_signers c g w = (Ok allowed, w)"
proof -
  have cwd: "\<exists>ps. (case g_cwd g of None \<Rightarrow> io_return [] | Some cwd \<Rightarrow> ascend g cwd) w = (Ok ps, w)"
    using ascend_total by (auto split: option.split)
  have var: "\<exists>v. env_var key w = (Ok v, w)" for key by (simp add: env_var_def)
  have "\<exists>ps. candidate_paths g w = (Ok ps, w)"
    unfolding candidate_paths_def Let_def
    using cwd var [of "''GIT_DIR''"] var [of "''HOME''"]
    by (auto simp: io_bind_def)
  then show ?thesis
    using add_signer_files_total [OF assms]
    by (auto simp: resolve_allowed_signers_def io_bind_def)
qed

subsection \<open>The transcript of a good signature\<close>

definition open_status :: "world \<Rightarrow> int option \<Rightarrow> int \<Rightarrow> bool" where
  "open_status w sfd fd \<longleftrightarrow> sfd = Some fd \<and> 2 < fd \<and> 0 \<le> w_fd_flags w fd \<and> fd \<notin> set (w_closed w)"

lemma write_status_open:
  "open_status w sfd fd \<Longrightarrow>
     write_status_fd sfd l w = (Ok (), w\<lparr>w_fd_out := w_fd_out w @ [(fd, l)]\<rparr>)"
  by (auto simp: open_status_def write_status_fd_def)

definition good_transcript :: "crypto \<Rightarrow> bytes \<Rightarrow> u32 \<Rightarrow> string \<Rightarrow> string option \<Rightarrow> string list" where
  "good_transcript c pk timestamp npub ident =
     (let hex_pk = hex_encode c pk
      in [''[GNUPG:] NEWSIG'' @ nl,
          ''[GNUPG:] GOODSIG '' @ hex_pk @ '' '' @ (case ident of Some i \<Rightarrow> i | None \<Rightarrow> npub) @ nl,
          ''[GNUPG:] VALIDSIG '' @ hex_pk @ '' '' @ date_str timestamp @ '' '' @
            show_nat (unat timestamp) @ '' 0 4 0 1 8 00 '' @ hex_pk @ nl,
          ''[GNUPG:] '' @ (case ident of Some _ \<Rightarrow> ''TRUST_ULTIMATE'' | None \<Rightarrow> ''TRUST_UNDEFINED'') @
            '' 0 pgp'' @ nl])"

lemma report_good_run:
  assumes "open_status w sfd fd"
  shows "\<exists>w'. report_good c sfd payload pk npub allowed w = (Ok (), w') \<and>
    w_fd_out w' = w_fd_out w @ map (Pair fd)
      (good_transcript c pk (from_be (slice payload 5 9)) npub (find_identity pk allowed))"
proof -
  have st: "open_status v sfd fd" if "w_fd_flags v = w_fd_flags w" "w_closed v = w_closed w" for v
    using assms that by (simp add: open_status_def)
  show ?thesis
    unfolding report_good_def Let_def good_transcript_def
    by (simp add: io_bind_def write_status_open [OF st] eprintln_def del: append.simps)
qed

lemma shim_verify_ok:
  assumes laws: "digest_laws c" "codec_laws c"
    and sigf: "verify_sig_path opts = Some p" "w_files w p = Inr raw" "detach_armor c raw = Inr payload"
      "length payload = SIGNATURE_PAYLOAD_SIZE"
    and data: "signed_data opts w = Inr data" and sig: "signed_by c payload (sha256 c data) pk"
  shows "\<exists>npub allowed w2. encode_npub c pk = Some npub \<and>
    resolve_allowed_signers c g w2 = (Ok allowed, w2) \<and> w2 = w\<lparr>w_stdin := w_stdin w2\<rparr> \<and>
    shim_verify c g opts w = report_good c (status_fd opts) payload pk npub allowed w2"
proof -
  have rs: "shim_read_signature c opts w = (Ok payload, w)"
    using sigf by (simp add: shim_read_signature_def io_bind_def fs_read_def)
  obtain w2 where rd: "shim_read_data opts w = (Ok data, w2)" and w2: "w2 = w\<lparr>w_stdin := w_stdin w2\<rparr>"
    using shim_read_data_run [of opts w] data by auto
  have len: "length (sha256 c data) = 32" using laws(1) by (simp add: digest_laws_def)
  have vp: "verify_stream_payload c payload (sha256 c data) = Inr pk"
    using verify_stream_payload_iff [OF sigf(4) len] sig by blast
  have "length pk = 32" using sig by (auto simp: signed_by_def)
  then obtain npub where npub: "encode_npub c pk = Some npub" using npub_total [OF laws(2)] by blast
  obtain allowed where al: "resolve_allowed_signers c g w2 = (Ok allowed, w2)"
    using resolve_total [OF laws(2)] by blast
  have "shim_verify c g opts w = report_good c (status_fd opts) payload pk npub allowed w2"
    by (simp only: shim_verify_def io_bind_def rs rd vp npub al prod.case res.case sum.case
        io_unwrap_simps io_run_simps)
  with npub al w2 show ?thesis by blast
qed

subsection \<open>Signing and verifying agree\<close>

lemma write_status_other:
  assumes "sfd \<noteq> Some 1" and "sfd \<noteq> Some (-1)"
  shows "\<exists>w'. write_status_fd sfd l w = (Ok (), w') \<and> w_stdout w' = w_stdout w \<and> w_room w' = w_room w"
  using assms by (cases sfd) (auto simp: write_status_fd_def eprintln_def)

lemma check_key_id_ok:
  assumes "\<And>kid b. key_id opts = Some kid \<Longrightarrow> parse_key_bytes c kid = Inr b \<Longrightarrow> b = pk"
  shows "check_key_id c opts pk = io_return ()"
  using assms by (auto simp: check_key_id_def split: option.split sum.split)

lemma shim_sign_room:
  assumes laws: "digest_laws c" "schnorr_laws c"
    and key: "load_secret_key c no_key_args w = (Ok sk, w1)" "signing_key c sk = Inr ()"
    and kid: "\<And>kid b. key_id opts = Some kid \<Longrightarrow> parse_key_bytes c kid = Inr b \<Longrightarrow> b = verifying_key_of c sk"
    and w: "live (w_stdin w)" "w_room w = None" "w_clock w = Some t"
    and sfd: "status_fd opts \<noteq> Some 1" "status_fd opts \<noteq> Some (-1)"
  obtains payload w' where "shim_sign c opts w = (Ok (), w')"
    and "length payload = SIGNATURE_PAYLOAD_SIZE"
    and "signed_by c payload (sha256 c (rd_bytes (w_stdin w))) (verifying_key_of c sk)"
    and "w_stdout w' = w_stdout w @ str_bytes (armor_text (armor_lines ''PGP'' (base64_encode c payload)))"
proof -
  note step = keepsD [OF keeps_load_secret_key key(1)]
  note same = intake_view_fields(1,2,8,14) [OF step]
  have load: "load_signing_key c no_key_args w = (Ok sk, w1)"
    by (simp add: load_signing_key_def io_bind_def key)
  have rd: "stdin_read_to_end w1 = (Ok (Inr (rd_bytes (w_stdin w))), w1\<lparr>w_stdin := []\<rparr>)"
    using read_to_end_live [OF w(1), of "[]"] same(2) by (simp add: stdin_read_to_end_def)
  have now: "now_timestamp (w1\<lparr>w_stdin := []\<rparr>) = (Ok (of_nat t), w1\<lparr>w_stdin := []\<rparr>)"
    using w(3) same(4) by (simp add: now_timestamp_def io_bind_def)
  have d: "length (sha256 c (rd_bytes (w_stdin w))) = 32" using laws(1) by (simp add: digest_laws_def)
  obtain payload where p: "sign_stream_payload c sk (sha256 c (rd_bytes (w_stdin w))) (of_nat t) = Some payload"
    "length payload = SIGNATURE_PAYLOAD_SIZE"
    "signed_by c payload (sha256 c (rd_bytes (w_stdin w))) (verifying_key_of c sk)"
    by (rule sign_stream_payload_ok [OF laws(2,1) key(2) d])
  obtain w2 where st: "write_status_fd (status_fd opts) (''[GNUPG:] SIG_CREATED D 1 8 00 '' @
          show_nat (unat (of_nat t :: u32)) @ '' '' @ hex_encode c (verifying_key_of c sk) @ nl)
          (w1\<lparr>w_stdin := []\<rparr>) = (Ok (), w2)"
    and w2: "w_stdout w2 = w_stdout w" "w_room w2 = None"
    using write_status_other [OF sfd] same(1,3) w(2) by fastforce
  have "shim_sign c opts w = print_lines (armor_lines ''PGP'' (base64_encode c payload)) w2"
    by (simp only: shim_sign_def io_bind_def load check_key_id_ok [of opts c, OF kid] Let_def rd now p(1) st
        prod.case res.case io_try_simps io_unwrap_simps io_run_simps)
  then have "shim_sign c opts w = (Ok (), w2\<lparr>w_stdout := w_stdout w2 @
      str_bytes (armor_text (armor_lines ''PGP'' (base64_encode c payload)))\<rparr>)"
    by (simp only: print_lines_room [OF w2(2)])
  then show ?thesis by (rule that [OF _ p(2,3)]) (simp add: w2(1))
qed

text \<open>A key that does not match the requested one signs nothing.\<close>

lemma shim_sign_mismatch:
  assumes key: "load_secret_key c no_key_args w = (Ok sk, w1)" "signing_key c sk = Inr ()"
    and kid: "key_id opts = Some kid" "parse_key_bytes c kid = Inr b" "b \<noteq> verifying_key_of c sk"
    and sfd: "status_fd opts \<noteq> Some 1" "status_fd opts \<noteq> Some (-1)"
  shows "\<exists>m w'. shim_sign c opts w = (Err (UsageError m), w') \<and> w_stdout w' = w_stdout w"
proof -
  note same = intake_view_fields(1) [OF keepsD [OF keeps_load_secret_key key(1)]]
  have load: "load_signing_key c no_key_args w = (Ok sk, w1)"
    by (simp add: load_signing_key_def io_bind_def key)
  obtain w2 where st: "write_status_fd (status_fd opts) (''[GNUPG:] INV_SGNR 0 '' @ kid @ nl) w1 = (Ok (), w2)"
    "w_stdout w2 = w_stdout w"
    using write_status_other [OF sfd] same by fastforce
  have "\<exists>m w3. check_key_id c opts (verifying_key_of c sk) w1 = (Err (UsageError m), w3) \<and> w_stdout w3 = w_stdout w"
    using kid st by (simp add: check_key_id_def io_bind_def eprintln_def del: append.simps)
  then show ?thesis by (auto simp: shim_sign_def io_bind_def load Let_def)
qed

end
