(* ===== verification/Cli.thy ===== *)
theory Cli
  imports GitShim
begin

text \<open>
  The command line (\<open>rust/src/main.rs\<close>): \<open>parse_key_intake_args\<close>, the option loops of each
  command, \<open>dispatch_command\<close> and \<open>real_main\<close> with its exit code.
\<close>

subsection \<open>Key intake arguments\<close>

fun key_intake_loop :: "key_intake_args \<Rightarrow> string list \<Rightarrow> key_intake_args" where
  "key_intake_loop ka [] = ka"
| "key_intake_loop ka [_] = ka"
| "key_intake_loop ka (arg # v # rest) =
     (if arg = ''--sec-fd'' then key_intake_loop (ka\<lparr>sec_fd := parse_i32 v\<rparr>) rest
      else if arg = ''--sec-file'' then key_intake_loop (ka\<lparr>sec_file := Some v\<rparr>) rest
      else if arg = ''--mnemonic-fd'' then key_intake_loop (ka\<lparr>mnemonic_fd := parse_i32 v\<rparr>) rest
      else if arg = ''--passphrase-fd'' then key_intake_loop (ka\<lparr>passphrase_fd := parse_i32 v\<rparr>) rest
      else if arg = ''--bip85-identity'' then key_intake_loop (ka\<lparr>bip85_identity := parse_u32 v\<rparr>) rest
      else if arg = ''--bip85-index'' then key_intake_loop (ka\<lparr>bip85_index := parse_u32 v\<rparr>) rest
      else key_intake_loop ka (v # rest))"

declare key_intake_loop.simps [simp del]

definition parse_key_intake_args :: "string list \<Rightarrow> nat \<Rightarrow> key_intake_args" where
  "parse_key_intake_args args start_idx = key_intake_loop no_key_args (drop start_idx args)"

subsection \<open>Option loops\<close>

record encrypt_opts =
  e_recipient :: "string option"
  e_mode :: u8
  e_entropy_fd :: "int option"

fun encrypt_loop_args :: "encrypt_opts \<Rightarrow> string list \<Rightarrow> encrypt_opts" where
  "encrypt_loop_args o1 [] = o1"
| "encrypt_loop_args o1 [_] = o1"
| "encrypt_loop_args o1 (arg # v # rest) =
     (if arg = ''--recipient'' then encrypt_loop_args (o1\<lparr>e_recipient := Some v\<rparr>) rest
      else if arg = ''--mode''
      then encrypt_loop_args (o1\<lparr>e_mode := (case parse_u8 v of Some m \<Rightarrow> m | None \<Rightarrow> 2)\<rparr>) rest
      else if arg = ''--entropy-fd'' then encrypt_loop_args (o1\<lparr>e_entropy_fd := parse_i32 v\<rparr>) rest
      else encrypt_loop_args o1 (v # rest))"

record decrypt_opts =
  d_sender :: "string option"
  d_allow_untrusted :: bool
  d_allow_unverified :: bool
  d_max_size :: "u64 option"

fun decrypt_loop_args :: "decrypt_opts \<Rightarrow> string list \<Rightarrow> decrypt_opts" where
  "decrypt_loop_args o1 [] = o1"
| "decrypt_loop_args o1 (arg # rest) =
     (if arg = ''--allow-untrusted-sender''
      then decrypt_loop_args (o1\<lparr>d_allow_untrusted := True\<rparr>) rest
      else if arg = ''--allow-unverified-stream''
      then decrypt_loop_args (o1\<lparr>d_allow_unverified := True\<rparr>) rest
      else (case rest of
              [] \<Rightarrow> o1
            | v # rest' \<Rightarrow>
                if arg = ''--sender'' then decrypt_loop_args (o1\<lparr>d_sender := Some v\<rparr>) rest'
                else if arg = ''--max-size'' then decrypt_loop_args (o1\<lparr>d_max_size := parse_u64 v\<rparr>) rest'
                else decrypt_loop_args o1 rest))"

record verify_opts =
  v_sig_path :: "string option"
  v_expected_pub :: "string option"
  v_max_size :: "u64 option"
  v_pass_through :: bool

fun verify_loop_args :: "verify_opts \<Rightarrow> string list \<Rightarrow> verify_opts" where
  "verify_loop_args o1 [] = o1"
| "verify_loop_args o1 (arg # rest) =
     (if arg = ''--pass-through'' then verify_loop_args (o1\<lparr>v_pass_through := True\<rparr>) rest
      else (case rest of
              [] \<Rightarrow> o1
            | v # rest' \<Rightarrow>
                if arg = ''--sig'' then verify_loop_args (o1\<lparr>v_sig_path := Some v\<rparr>) rest'
                else if arg = ''--pub'' then verify_loop_args (o1\<lparr>v_expected_pub := Some v\<rparr>) rest'
                else if arg = ''--max-size'' then verify_loop_args (o1\<lparr>v_max_size := parse_u64 v\<rparr>) rest'
                else verify_loop_args o1 rest))"

definition sign_armor :: "string list \<Rightarrow> bool" where
  "sign_armor args \<longleftrightarrow> (\<exists>a \<in> set args. a = ''-a'' \<or> a = ''--armor'')"

declare encrypt_loop_args.simps [simp del] decrypt_loop_args.simps [simp del]
  verify_loop_args.simps [simp del]

subsection \<open>Commands\<close>

definition print_usage :: "unit io" where
  "print_usage w =
     (Ok (), w\<lparr>w_stderr := w_stderr w @
       [''pipe-k1 v0.1.0 - Stateless secp256k1 UNIX cryptographic stream filter'',
        ''Usage:'',
        ''  pipe-k1 encrypt --recipient <npub|hex> [--entropy-fd <N>]  # Authenticated stream encryption'',
        ''  pipe-k1 decrypt                                           # Spool-and-verify stream decryption'',
        ''  pipe-k1 sign [-a|--armor]                                 # Sign stdin stream using PIPE_K1_SEC_KEY env'',
        ''  pipe-k1 verify --sig <file> [--pub <npub|hex>]            # Verify stdin stream against signature file'',
        ''  pipe-k1 pubkey                                            # Display public key and npub from PIPE_K1_SEC_KEY'',
        ''  pipe-k1 hash [tag]                                        # Compute BIP-340 tagged hash over stdin'',
        ''  pipe-k1 inspect-header                                    # Parse 97-byte wire header from stdin'',
        ''  pipe-k1 inspect-chunk                                     # Parse 5-byte chunk framing header from stdin'']\<rparr>)"

definition encrypt_command :: "crypto \<Rightarrow> string list \<Rightarrow> unit io" where
  "encrypt_command c args =
     (let key_args = parse_key_intake_args args 2;
          opts = encrypt_loop_args \<lparr> e_recipient = None, e_mode = 0x02, e_entropy_fd = None \<rparr> (drop 2 args)
      in case e_recipient opts of
           None \<Rightarrow> io_err (UsageError ''Missing mandatory argument: --recipient <npub|hex>'')
         | Some recip \<Rightarrow> run_encrypt c recip (e_mode opts) key_args (e_entropy_fd opts))"

definition decrypt_command :: "crypto \<Rightarrow> string list \<Rightarrow> unit io" where
  "decrypt_command c args =
     (let key_args = parse_key_intake_args args 2;
          opts = decrypt_loop_args \<lparr> d_sender = None, d_allow_untrusted = False,
                   d_allow_unverified = False, d_max_size = None \<rparr> (drop 2 args)
      in run_decrypt c (d_sender opts) (d_allow_untrusted opts) (d_allow_unverified opts)
           (d_max_size opts) key_args)"

definition pubkey_command :: "crypto \<Rightarrow> string list \<Rightarrow> unit io" where
  "pubkey_command c args =
     io_bind (load_signing_key c (parse_key_intake_args args 2)) (\<lambda>sk.
     let pk_x = verifying_key_of c sk
     in io_bind (io_unwrap ''called `Result::unwrap()` on an `Err` value'' (encode_npub c pk_x)) (\<lambda>npub.
        io_bind (println (''Hex:  '' @ hex_encode c pk_x)) (\<lambda>_.
        println (''Npub: '' @ npub))))"

definition hash_command :: "crypto \<Rightarrow> string list \<Rightarrow> unit io" where
  "hash_command c args =
     (let tag = (if 2 < length args then args ! 2 else TAG_SIGN)
      in io_bind stdin_read_to_end (\<lambda>r.
         io_bind (io_try from_io r) (\<lambda>buffer.
         println (hex_encode c (tagged_hash c tag buffer)))))"

definition inspect_header_command :: "crypto \<Rightarrow> unit io" where
  "inspect_header_command c =
     io_bind (stdin_read_exact WIRE_HEADER_SIZE) (\<lambda>r.
     io_bind (io_try from_io r) (\<lambda>header.
     if slice header 0 4 \<noteq> MAGIC_HEADER
     then io_err (WireCorruption ''Invalid magic bytes (expected PK01)'')
     else print_lines
       [''Valid pipe-k1 Wire Header (97 bytes):'',
        ''  Magic:        '' @ bytes_str (slice header 0 4),
        ''  Version:      0x'' @ show_hex2 (header ! 4),
        ''  Mode:         0x'' @ show_hex2 (header ! 5),
        ''  EphemeralPub: '' @ hex_encode c (slice header 6 38),
        ''  RecipientPub: '' @ hex_encode c (slice header 38 70),
        ''  Salt (11B):   '' @ hex_encode c (slice header 70 81),
        ''  HMAC (16B):   '' @ hex_encode c (slice header 81 97)]))"

definition inspect_chunk_command :: "unit io" where
  "inspect_chunk_command =
     io_bind (stdin_read_exact CHUNK_HEADER_SIZE) (\<lambda>r.
     io_bind (io_try from_io r) (\<lambda>chunk_hdr.
     let len = from_be (slice chunk_hdr 0 4) :: u32; term = chunk_hdr ! 4
     in print_lines
       [''Valid pipe-k1 Chunk Header (5 bytes):'',
        ''  Payload Length: '' @ show_nat (unat len) @ '' bytes'',
        ''  Terminal Tag:   0x'' @ show_hex2 term @ '' ('' @
          (if term = 0x01 then ''TERMINAL'' else ''INTERMEDIATE'') @ '')'']))"

definition dispatch_command :: "crypto \<Rightarrow> string list \<Rightarrow> unit io" where
  "dispatch_command c args =
     (let cmd = args ! 1 in
      if cmd = ''encrypt'' then encrypt_command c args
      else if cmd = ''decrypt'' then decrypt_command c args
      else if cmd = ''pubkey'' then pubkey_command c args
      else if cmd = ''sign'' then sign_command c (sign_armor (drop 2 args)) (parse_key_intake_args args 2)
      else if cmd = ''verify'' then
        (let opts = verify_loop_args \<lparr> v_sig_path = None, v_expected_pub = None, v_max_size = None,
                      v_pass_through = False \<rparr> (drop 2 args)
         in verify_command c (v_sig_path opts) (v_expected_pub opts) (v_max_size opts) (v_pass_through opts))
      else if cmd = ''hash'' then hash_command c args
      else if cmd = ''inspect-header'' then inspect_header_command c
      else if cmd = ''inspect-chunk'' then inspect_chunk_command
      else io_bind print_usage (\<lambda>_. io_err (UsageError ''Unknown command'')))"

subsection \<open>\<open>real_main\<close>\<close>

text \<open>\<open>args[0].rsplit('/').next()\<close>: what follows the last slash.\<close>

definition exe_name :: "string \<Rightarrow> string" where
  "exe_name a0 = rev (takeWhile (\<lambda>ch. ch \<noteq> CHR ''/'') (rev a0))"

definition is_git_invocation :: "string list \<Rightarrow> bool" where
  "is_git_invocation args \<longleftrightarrow>
     contains (exe_name (args ! 0)) ''git-shim'' \<or> args ! 1 = ''git-shim'' \<or>
     starts_with (args ! 1) ''-b'' \<or> starts_with (args ! 1) ''--status-fd'' \<or>
     starts_with (args ! 1) ''--keyid-format'' \<or> args ! 1 = ''--verify'' \<or>
     starts_with (args ! 1) ''--extra-check-level''"

datatype outcome = Exit int | Abort string | Hang

text \<open>The process: an exit code, an abort on a panic, or a loop that never ends.\<close>

definition real_main :: "crypto \<Rightarrow> git_env \<Rightarrow> string list \<Rightarrow> world \<Rightarrow> outcome \<times> world" where
  "real_main c g args w =
     (let w1 = w\<lparr>w_dumpable := False\<rparr> in
      if length args < 2 then (Exit 2, snd (print_usage w1))
      else
        let res = (if is_git_invocation args
                   then run_git_shim c g (if args ! 1 = ''git-shim'' then drop 2 args else drop 1 args)
                   else dispatch_command c args)
        in case res w1 of
             (Ok _, w2) \<Rightarrow> (Exit 0, w2)
           | (Err err, w2) \<Rightarrow> (Exit (exit_code err), snd (eprintln (''Error: '' @ fmt_error err) w2))
           | (Panic s, w2) \<Rightarrow> (Abort s, w2)
           | (Diverge, w2) \<Rightarrow> (Hang, w2))"

end
