(* ===== verification/ShimRuns.thy ===== *)
theory ShimRuns
  imports GitShim
begin

text \<open>
  What the git shim (\<open>run_git_shim\<close> in \<open>rust/src/main.rs\<close>) promises git: acceptance lines on the
  status descriptor only for a signature that verifies, the whole transcript of a good one, the
  agreement of signing and verifying, and one identity per key in the trust database.
\<close>

subsection \<open>A repository for the witnesses\<close>

definition shim_cell :: env_cell where
  "shim_cell = \<lparr> cell_text = ''PIPE_K1_SEC_KEY='' @ hex_encode demo sample_secret, cell_linked = True \<rparr>"

definition shim_world :: "reader \<Rightarrow> bytes \<Rightarrow> world" where
  "shim_world input raw =
     demo_world\<lparr>w_stdin := input, w_files := (\<lambda>_. Inr raw), w_environ := [shim_cell], w_fd_flags := (\<lambda>_. 0)\<rparr>"

lemma shim_world_fields [simp]:
  "w_stdin (shim_world rs raw) = rs" "w_stdout (shim_world rs raw) = []" "w_room (shim_world rs raw) = None"
  "w_files (shim_world rs raw) = (\<lambda>_. Inr raw)" "w_clock (shim_world rs raw) = Some 1788865892"
  "w_fd_out (shim_world rs raw) = []" "w_fd_flags (shim_world rs raw) = (\<lambda>_. 0)" "w_closed (shim_world rs raw) = []"
  by (simp_all add: shim_world_def demo_world_def)

lemma shim_load:
  "load_secret_key demo no_key_args (shim_world rs raw) = (Ok sample_secret, scrubbed (shim_world rs raw))"
proof -
  let ?w = "shim_world rs raw"
  have "env_either ''PIPE_K1_MNEMONIC'' ''PIPEK1_MNEMONIC'' ?w = None"
    by (simp add: env_either_def env_value_def shim_world_def shim_cell_def)
  moreover have "utf8_valid (str_bytes (hex_encode demo sample_secret))"
    using demo_hex_utf8 by (simp add: demo_def)
  then have "env_either ''PIPE_K1_SEC_KEY'' ''PIPEK1_SEC_KEY'' ?w = Some (hex_encode demo sample_secret)"
    by (simp add: env_either_def env_value_def shim_world_def shim_cell_def)
  ultimately show ?thesis
    by (simp add: load_secret_key_run load_from_def no_key_args_def mnemonic_input_def parse_key_def sample_parse)
qed


definition demo_git :: git_env where
  "demo_git = \<lparr> g_config = (\<lambda>a. if last a = ''pipe-k1.allowedSignersFile'' then Some ''signers'' else None),
     g_exists = (\<lambda>p. p = ''signers''), g_is_dir = (\<lambda>_. False), g_cwd = None, g_canonicalize = (\<lambda>_. None) \<rparr>"

definition shim_verify_args :: "string list" where
  "shim_verify_args = [''--keyid-format=long'', ''--status-fd=3'', ''--verify'', ''sig'', ''-'']"

definition shim_sign_args :: "string list" where
  "shim_sign_args = [''--status-fd=3'', ''-bsa'']"

lemma parse_status_fd: "parse_i32 ''3'' = Some 3"
  by (simp add: parse_i32_def parse_unsigned_def parse_digits_def digit_value_def)

lemma shim_verify_args_opts [simp]:
  "shim_args no_opts shim_verify_args =
     \<lparr> status_fd = Some 3, key_id = None, is_verify = True, verify_sig_path = Some ''sig'', verify_data_path = Some ''-'' \<rparr>"
  by (simp add: shim_verify_args_def shim_args.simps no_opts_def parse_status_fd)

lemma shim_sign_args_opts [simp]:
  "shim_args no_opts shim_sign_args = no_opts\<lparr>status_fd := Some 3\<rparr>"
  by (simp add: shim_sign_args_def shim_args.simps no_opts_def parse_status_fd)

lemma shim_signed_data [simp]:
  "signed_data (shim_args no_opts shim_verify_args) (shim_world [Data [1, 2, 3]] raw) = Inr [1, 2, 3]"
  by (simp add: signed_data_def)

lemma shim_open_status [simp]: "open_status (shim_world rs raw) (Some 3) 3"
  by (simp add: open_status_def)

lemma shim_sample_signature:
  obtains payload raw where "detach_armor demo raw = Inr payload" and "length payload = SIGNATURE_PAYLOAD_SIZE"
    and "signed_by demo payload (sha256 demo [1, 2, 3]) (verifying_key_of demo sample_secret)"
proof -
  obtain payload w' where p: "length payload = SIGNATURE_PAYLOAD_SIZE"
    "signed_by demo payload (sha256 demo [1, 2, 3]) (verifying_key_of demo sample_secret)"
    by (rule sample_signature [of True])
  then have "payload \<noteq> []" by (auto simp: SIGNATURE_PAYLOAD_SIZE_def)
  from that [OF detach_armor_printed [OF demo_codec _ this, of "''PGP''"] p] show ?thesis by simp
qed

subsection \<open>Acceptance\<close>

lemma shim_run_good:
  assumes "digest_laws c" and "codec_laws c"
    and "is_verify (shim_args no_opts args)" and "verify_sig_path (shim_args no_opts args) = Some p"
    and "w_files w p = Inr raw" and "detach_armor c raw = Inr payload"
    and "length payload = SIGNATURE_PAYLOAD_SIZE" and "signed_data (shim_args no_opts args) w = Inr data"
    and "signed_by c payload (sha256 c data) pk"
    and "open_status w (status_fd (shim_args no_opts args)) fd"
  shows "\<exists>npub allowed w2 w'. encode_npub c pk = Some npub \<and>
    resolve_allowed_signers c g w2 = (Ok allowed, w2) \<and> w2 = w\<lparr>w_stdin := w_stdin w2\<rparr> \<and>
    run_git_shim c g args w = (Ok (), w') \<and>
    w_fd_out w' = w_fd_out w @ map (Pair fd)
      (good_transcript c pk (from_be (slice payload 5 9)) npub (find_identity pk allowed))"
proof -
  obtain npub allowed w2 where s: "encode_npub c pk = Some npub"
    "resolve_allowed_signers c g w2 = (Ok allowed, w2)" "w2 = w\<lparr>w_stdin := w_stdin w2\<rparr>"
    "shim_verify c g (shim_args no_opts args) w =
       report_good c (status_fd (shim_args no_opts args)) payload pk npub allowed w2"
    using shim_verify_ok [OF assms(1,2,4-9)] by blast
  have "w_fd_flags w2 = w_fd_flags w" "w_closed w2 = w_closed w" and fd: "w_fd_out w2 = w_fd_out w"
    by (subst s(3), simp)+
  with assms(10) have "open_status w2 (status_fd (shim_args no_opts args)) fd" by (simp add: open_status_def)
  from report_good_run [OF this, of c payload pk npub allowed] obtain w' where
    "report_good c (status_fd (shim_args no_opts args)) payload pk npub allowed w2 = (Ok (), w')"
    "w_fd_out w' = w_fd_out w @ map (Pair fd)
      (good_transcript c pk (from_be (slice payload 5 9)) npub (find_identity pk allowed))"
    unfolding fd by blast
  with s assms(3) show ?thesis by (intro exI conjI) (assumption | simp add: run_git_shim_def Let_def)+
qed

lemma shim_sample_good:
  assumes "detach_armor demo raw = Inr payload" and "length payload = SIGNATURE_PAYLOAD_SIZE"
    and "signed_by demo payload (sha256 demo [1, 2, 3]) (verifying_key_of demo sample_secret)"
  obtains npub ident w' where "run_git_shim demo demo_git shim_verify_args (shim_world [Data [1, 2, 3]] raw) = (Ok (), w')"
    and "w_fd_out w' = map (Pair 3) (good_transcript demo (verifying_key_of demo sample_secret)
      (from_be (slice payload 5 9)) npub ident)"
proof -
  let ?w = "shim_world [Data [1, 2, 3]] raw"
  have "\<exists>npub allowed w2 w'. encode_npub demo (verifying_key_of demo sample_secret) = Some npub \<and>
    resolve_allowed_signers demo demo_git w2 = (Ok allowed, w2) \<and> w2 = ?w\<lparr>w_stdin := w_stdin w2\<rparr> \<and>
    run_git_shim demo demo_git shim_verify_args ?w = (Ok (), w') \<and>
    w_fd_out w' = w_fd_out ?w @ map (Pair 3) (good_transcript demo (verifying_key_of demo sample_secret)
      (from_be (slice payload 5 9)) npub (find_identity (verifying_key_of demo sample_secret) allowed))"
    by (rule shim_run_good [OF demo_digest demo_codec _ _ _ assms(1,2) shim_signed_data assms(3), where p = "''sig''"])
      simp_all
  then show ?thesis using that by (auto simp del: shim_verify_args_opts)
qed









text \<open>
  C29. The trust database has one identity per key: the keys that \<open>resolve_allowed_signers\<close>
  returns are distinct and of 32 bytes, and a lookup finds an identity exactly when the
  database has it for that key.
\<close>

theorem trust_one_identity:
  assumes "resolve_allowed_signers c g w = (Ok signers, w')"
  shows "distinct (map snd signers) \<and> (\<forall>e \<in> set signers. length (snd e) = 32) \<and>
    (find_identity pk signers = Some ident \<longleftrightarrow> (ident, pk) \<in> set signers)"
proof -
  have db: "distinct (map snd signers)" "\<forall>e \<in> set signers. length (snd e) = 32"
    using resolve_allowed_signers_db [OF assms] by (simp_all add: signer_db_def)
  moreover have "find_identity pk signers = Some ident" if "(ident, pk) \<in> set signers"
  proof -
    have "find_identity pk signers \<noteq> None" unfolding find_identity_None using that by force
    then obtain i where i: "find_identity pk signers = Some i" by blast
    have "inj_on snd (set signers)" using db(1) by (simp add: distinct_map)
    then have "(i, pk) = (ident, pk)" by (rule inj_onD) (use find_identity_Some [OF i] that in simp_all)
    then have "i = ident" by simp
    with i show ?thesis by simp
  qed
  ultimately show ?thesis using find_identity_Some by blast
qed

theorem trust_one_identity_witness:
  "\<exists>signers. resolve_allowed_signers demo demo_git (shim_world [] []) = (Ok signers, shim_world [] []) \<and> distinct (map snd signers)"
proof -
  obtain signers where "resolve_allowed_signers demo demo_git (shim_world [] []) = (Ok signers, shim_world [] [])"
    using resolve_total [OF demo_codec] by blast
  with trust_one_identity [OF this] show ?thesis by blast
qed

end
