(* ===== verification/Robust.thy ===== *)
theory Robust
  imports Cli ShimRuns
begin

text \<open>
  No input makes \<open>decrypt\<close> or \<open>verify\<close> (\<open>rust/src/main.rs\<close>) panic or loop: \<open>returns m w\<close> says
  that \<open>m\<close> ends with a value or an error in \<open>w\<close>, one lemma per stage, then the two commands
  and the process that runs them.
\<close>

subsection \<open>Programs that return\<close>

definition returns :: "'a io \<Rightarrow> world \<Rightarrow> bool" where
  "returns m w \<longleftrightarrow> (\<exists>x w'. m w = (Ok x, w')) \<or> (\<exists>e w'. m w = (Err e, w'))"

named_theorems returns_rules

lemma returns_bind [returns_rules]:
  "returns m w \<Longrightarrow> (\<And>x v. m w = (Ok x, v) \<Longrightarrow> returns (f x) v) \<Longrightarrow> returns (io_bind m f) w"
  by (auto simp: returns_def io_bind_def)

lemma returns_basic [returns_rules]:
  "returns (io_return x) w" "returns (io_err e) w" "returns (io_get h) w" "returns (io_try g r) w"
  by (simp_all add: returns_def) (cases r; simp)

lemma returns_if [returns_rules]:
  "(b \<Longrightarrow> returns m w) \<Longrightarrow> (\<not> b \<Longrightarrow> returns n w) \<Longrightarrow> returns (if b then m else n) w"
  by simp

lemma returns_when [returns_rules]: "returns m w \<Longrightarrow> returns (io_when b m) w"
  by (cases b) (simp_all add: returns_def)

lemma returns_option [returns_rules]:
  "(r = None \<Longrightarrow> returns m w) \<Longrightarrow> (\<And>x. r = Some x \<Longrightarrow> returns (n x) w) \<Longrightarrow>
     returns (case r of None \<Rightarrow> m | Some x \<Rightarrow> n x) w"
  by (cases r) auto

lemma returns_sum [returns_rules]:
  "(\<And>e. r = Inl e \<Longrightarrow> returns (m e) w) \<Longrightarrow> (\<And>x. r = Inr x \<Longrightarrow> returns (n x) w) \<Longrightarrow>
     returns (case r of Inl e \<Rightarrow> m e | Inr x \<Rightarrow> n x) w"
  by (cases r) auto

lemma returns_prod [returns_rules]:
  "(\<And>x y. r = (x, y) \<Longrightarrow> returns (m x y) w) \<Longrightarrow> returns (case r of (x, y) \<Rightarrow> m x y) w"
  by (cases r) auto

lemma returns_unwrap: "r \<noteq> None \<Longrightarrow> returns (io_unwrap s r) w"
  by (auto simp: returns_def)

lemma returns_primitives [returns_rules]:
  "returns (stdin_read n) w" "returns (stdin_read_exact n) w" "returns (stdin_read_to_end) w"
  "returns (os_random n) w" "returns (fs_read p) w" "returns (fs_read_to_string p) w"
  "returns (env_var key) w" "returns (eprintln s) w" "returns (stdout_write_all bs) w"
  "returns stdout_flush w" "returns (fd_close fd) w" "returns set_undumpable w" "returns (set_cloexec fd) w"
  "returns (scrub_env_var key) w"
  by (auto simp: returns_def stdin_read_def stdin_read_exact_def stdin_read_to_end_def os_random_def fs_read_def
      fs_read_to_string_def env_var_def eprintln_def stdout_write_all_def stdout_flush_def fd_close_def
      set_undumpable_def set_cloexec_def scrub_env_var_def Let_def split: prod.splits option.splits)

subsection \<open>Key intake\<close>

text \<open>Only the descriptor -1 makes it panic.\<close>

definition usable_fds :: "key_intake_args \<Rightarrow> bool" where
  "usable_fds args \<longleftrightarrow>
     sec_fd args \<noteq> Some (-1) \<and> mnemonic_fd args \<noteq> Some (-1) \<and> passphrase_fd args \<noteq> Some (-1)"

lemma returns_secret_fd: "fd \<noteq> -1 \<Longrightarrow> returns (read_secret_fd flag fd) w"
  unfolding read_secret_fd_def
  by (intro returns_rules) (simp add: returns_def fd_open_def)

lemma returns_load_from: "usable_fds args \<Longrightarrow> returns (load_from c args m p k) w"
  unfolding load_from_def load_mnemonic_key_def mnemonic_input_def git_fallback_key_def parse_key_def Let_def
  by (intro returns_rules returns_secret_fd) (auto simp: usable_fds_def)

lemma returns_load_secret_key: "usable_fds args \<Longrightarrow> returns (load_secret_key c args) w"
  using returns_load_from by (simp add: returns_def load_secret_key_run)

subsection \<open>The spooler\<close>

lemma returns_spooler_new [returns_rules]: "returns (spooler_new limit) w"
  unfolding spooler_new_def by (intro returns_rules)

lemma returns_release_blocks: "returns (release_blocks c key n i file) w"
proof (induction n arbitrary: i "file" w)
  case (Suc n)
  then show ?case
    unfolding release_blocks.simps Let_def by (intro returns_rules)
qed (simp only: release_blocks.simps returns_primitives)

lemma returns_release [returns_rules]: "returns (release_to c s) w"
  unfolding release_to_def by (intro returns_rules returns_release_blocks)

subsection \<open>Decryption\<close>

lemma returns_read_chunk [returns_rules]: "returns (read_chunk c k r m i) w"
  unfolding read_chunk_def Let_def by (intro returns_rules)

lemma returns_deliver [returns_rules]: "returns (deliver c a pt s) w"
proof (cases a)
  case True
  then show ?thesis unfolding deliver_def put_def if_P [OF True] by (intro returns_rules)
qed (auto simp: deliver_def returns_def split: prod.split sum.split)

lemma returns_run: "m w = n w \<Longrightarrow> returns n w \<Longrightarrow> returns m w"
  by (simp add: returns_def)

lemma returns_decrypt_loop [returns_rules]: "returns (decrypt_loop c k r m a i s h) w"
proof (induction c k r m a i s h w rule: decrypt_loop.induct)
  case (1 c k r m a i s h w)
  show ?case
  proof (rule returns_run [OF decrypt_loop.simps], rule returns_bind [OF returns_read_chunk])
    fix ch w1
    assume rd: "read_chunk c k r m i w = (Ok ch, w1)"
    obtain t pt where ch: "ch = (t, pt)" by fastforce
    let ?h = "if m = 0x01 then h @ pt else h"
    have "returns (\<lambda>w2. if t = 0x01 then io_return (s', ?h) w2 else decrypt_loop c k r m a (i + 1) s' ?h w2) w2"
      if "deliver c a pt s w1 = (Ok s', w2)" for s' w2
      using "1.IH" [OF rd ch [symmetric] refl that] by (cases "t = 0x01") (simp_all add: returns_def)
    then show "returns (\<lambda>w1. case ch of (term_tag, pt) \<Rightarrow>
       let hashed = (if m = 0x01 then h @ pt else h)
       in io_bind (deliver c a pt s) (\<lambda>s' w2.
          if term_tag = 0x01 then io_return (s', hashed) w2
          else decrypt_loop c k r m a (i + 1) s' hashed w2) w1) w1"
      unfolding ch prod.case Let_def by (rule returns_bind [OF returns_deliver])
  qed
qed

lemma returns_verify_trailer:
  assumes "codec_laws c"
  shows "returns (verify_trailer c es au h p) w"
proof -
  have npub: "encode_npub c (slice tr 0 32) \<noteq> None" if "length tr = TRAILER_SIZE" for tr
    using npub_total [OF assms, of "slice tr 0 32"] that by (auto simp: TRAILER_SIZE_def)
  show ?thesis
    unfolding verify_trailer_def check_sender_def Let_def
    by (intro returns_rules returns_unwrap npub) (auto elim!: io_try_OkE dest!: stdin_read_exact_Inr)
qed

lemma returns_decrypt: "codec_laws c \<Longrightarrow> usable_fds args \<Longrightarrow> returns (run_decrypt c es au a limit args) w"
  unfolding run_decrypt_def decrypt_verified_def read_header_def expect_eof_def
  by (intro returns_rules returns_load_secret_key returns_verify_trailer)

subsection \<open>Verification\<close>

lemma returns_spool_piece [returns_rules]: "returns (spool_piece c bs sp) w"
  by (cases sp) (auto simp: spool_piece_def returns_def split: prod.split sum.split)

lemma returns_hash_stdin [returns_rules]: "returns (hash_stdin c sp h) w"
proof (induction c sp h w rule: hash_stdin.induct)
  case (1 c sp h w)
  show ?case
  proof (rule returns_run [OF hash_stdin.simps], rule returns_bind [OF returns_primitives(1)],
      rule returns_bind [OF returns_basic(4)])
    fix r w1 bs w2
    assume rd: "stdin_read CHUNK_SIZE w = (Ok r, w1)" "io_try from_io r w1 = (Ok bs, w2)"
    have "returns (io_bind (spool_piece c bs sp) (\<lambda>sp'. hash_stdin c sp' (h @ bs))) w2" if "bs \<noteq> []"
      by (rule returns_bind [OF returns_spool_piece]) (rule "1.IH" [OF rd that])
    then show "returns (\<lambda>w2. if bs = [] then io_return (sp, h) w2
        else io_bind (spool_piece c bs sp) (\<lambda>sp' w3. hash_stdin c sp' (h @ bs) w3) w2) w2"
      by (simp add: returns_def)
  qed
qed

lemma returns_verify:
  assumes "digest_laws c" and "codec_laws c"
  shows "returns (verify_command c path ep limit pass) w"
proof -
  have npub: "encode_npub c pk \<noteq> None"
    if "read_signature c path w = (Ok payload, w')" and "verify_stream_payload c payload (sha256 c d) = Inr pk"
    for payload d pk w w'
  proof -
    have "length payload = SIGNATURE_PAYLOAD_SIZE"
      using that(1) unfolding read_signature_def by (auto elim!: io_bind_OkE io_try_OkE split: if_splits)
    moreover have "length (sha256 c d) = 32" using assms(1) by (simp add: digest_laws_def)
    ultimately have "length pk = 32"
      using that(2) verify_stream_payload_iff [of payload "sha256 c d" c pk] by (auto simp: signed_by_def)
    then show ?thesis using npub_total [OF assms(2)] by fastforce
  qed
  have "returns (read_signature c path) w" for w unfolding read_signature_def by (intro returns_rules)
  moreover have "returns (check_expected c ep pk s) w" for pk s w
    unfolding check_expected_def by (intro returns_rules)
  ultimately show ?thesis
    unfolding verify_command_def verify_stream_def
    by (intro returns_rules returns_unwrap) (auto elim!: io_try_OkE dest: npub)
qed

subsection \<open>The process\<close>

lemma real_main_returns:
  assumes "2 \<le> length args" and "\<not> is_git_invocation args" and "\<And>v. returns (dispatch_command c args) v"
  shows "\<exists>n \<in> {0, 1, 2}. fst (real_main c g args w) = Exit n"
proof -
  consider x w2 where "dispatch_command c args (w\<lparr>w_dumpable := False\<rparr>) = (Ok x, w2)"
    | e w2 where "dispatch_command c args (w\<lparr>w_dumpable := False\<rparr>) = (Err e, w2)"
    using assms(3) unfolding returns_def by blast
  then show ?thesis
  proof cases
    case (2 e w2)
    with assms(1,2) exit_code_range [of e] show ?thesis by (auto simp: real_main_def Let_def)
  qed (use assms(1,2) in \<open>simp add: real_main_def Let_def\<close>)
qed



end
