(* ===== verification/Unverified.thy ===== *)
theory Unverified
  imports Samples
begin

text \<open>
  \<open>run_decrypt\<close> with \<open>--allow-unverified-stream\<close> (\<open>rust/src/main.rs\<close>): every chunk is written as
  soon as it opens, before the trailer and the end of the input are seen. \<open>opened\<close> relates an
  input to the plaintext of chunks at its front that are sealed under consecutive counters;
  the lemmas show that what is written is always a prefix of such a plaintext.
\<close>

inductive opened :: "crypto \<Rightarrow> bytes \<Rightarrow> bytes \<Rightarrow> u8 \<Rightarrow> u64 \<Rightarrow> bytes \<Rightarrow> bytes \<Rightarrow> bool"
  for c :: crypto and k :: bytes and r :: bytes and m :: u8 where
  opened_stop: "opened c k r m i msg []"
| opened_last: "length b \<le> CHUNK_SIZE \<Longrightarrow> opened c k r m i (wire_chunk c k r m i 0x01 b @ msg) b"
| opened_step: "length b = CHUNK_SIZE \<Longrightarrow> opened c k r m (i + 1) msg p \<Longrightarrow>
    opened c k r m i (wire_chunk c k r m i 0x00 b @ msg) (b @ p)"

inductive_cases opened_stepE: "opened c k r m i msg (b @ p)"

text \<open>From an authentic stream only a prefix of its plaintext can be opened.\<close>

lemma opened_prefix:
  assumes "aead_laws c" and "length k = 32"
  shows "opened c k r m i msg p \<Longrightarrow> framed bs \<Longrightarrow> msg = wire_stream c k r m i bs @ tr \<Longrightarrow>
     \<exists>z. concat bs = p @ z"
proof (induction arbitrary: bs rule: opened.induct)
  case (opened_last b i msg)
  obtain b' cs where bs: "bs = b' # cs" using opened_last.prems(1) by (cases bs) (auto simp: framed_def)
  have len: "length b' \<le> CHUNK_SIZE" using opened_last.prems(1) bs by (cases cs) (auto simp: framed_def)
  obtain t rest where "wire_chunk c k r m i 0x01 b @ msg = wire_chunk c k r m i t b' @ rest"
    using opened_last.prems(2) bs by (cases "cs = []") (auto simp: wire_stream_cons)
  from wire_chunk_inj [OF assms opened_last.hyps len this] bs show ?case by simp
next
  case (opened_step b i msg p)
  obtain b' cs where bs: "bs = b' # cs" using opened_step.prems(1) by (cases bs) (auto simp: framed_def)
  have len: "length b' \<le> CHUNK_SIZE" using opened_step.prems(1) bs by (cases cs) (auto simp: framed_def)
  have "length b \<le> CHUNK_SIZE" using opened_step.hyps(1) by simp
  note inj = wire_chunk_inj [OF assms this len]
  show ?case
  proof (cases "cs = []")
    case True
    with opened_step.prems(2) bs have "wire_chunk c k r m i 0x00 b @ msg = wire_chunk c k r m i 0x01 b' @ tr"
      by simp
    with inj have "(0x00 :: u8) = 0x01" by blast
    then show ?thesis by simp
  next
    case False
    with opened_step.prems(2) bs have
      "wire_chunk c k r m i 0x00 b @ msg = wire_chunk c k r m i 0x00 b' @ wire_stream c k r m (i + 1) cs @ tr"
      by (simp add: wire_stream_cons)
    with inj have "b = b'" "msg = wire_stream c k r m (i + 1) cs @ tr" by blast+
    with opened_step.IH [of cs] opened_step.prems(1) bs False show ?thesis by (simp add: framed_Cons)
  qed
qed simp

subsection \<open>What the loop writes\<close>

lemma put_prefix:
  assumes "put bs w = (q, w')"
  shows "\<exists>d z. w_stdout w' = w_stdout w @ d \<and> bs = d @ z \<and> (\<forall>u. q = Ok u \<longrightarrow> z = [])"
proof -
  obtain q1 where q1: "stdout_write_all bs w = (q1, w')" "\<forall>x. q = Ok x \<longrightarrow> q1 = Ok (Inr x)"
    using io_bind_try_world [OF assms [unfolded put_def]] by blast
  obtain d z where "w_stdout w' = w_stdout w @ d" "bs = d @ z" "q1 = Ok (Inr ()) \<longrightarrow> z = []"
    using stdout_write_all_prefix [OF q1(1)] by blast
  with q1(2) show ?thesis by (intro exI [of _ d] exI [of _ z]) simp
qed

lemma deliver_streamed:
  assumes "deliver c True pt s w = (q, w')"
  shows "\<exists>d z. w_stdout w' = w_stdout w @ d \<and> pt = d @ z \<and> (\<forall>s'. q = Ok s' \<longrightarrow> z = [])"
proof -
  obtain q1 w1 where p: "put pt w = (q1, w1)" by fastforce
  have "w_stdout w' = w_stdout w1 \<and> (\<forall>s'. q = Ok s' \<longrightarrow> (\<exists>u. q1 = Ok u))"
    using assms p by (cases q1) (auto simp: deliver_def io_bind_def stdout_flush_def split: option.splits)
  moreover obtain d z where "w_stdout w1 = w_stdout w @ d" "pt = d @ z" "\<forall>u. q1 = Ok u \<longrightarrow> z = []"
    using put_prefix [OF p] by blast
  ultimately show ?thesis by (intro exI [of _ d] exI [of _ z]) auto
qed

lemma decrypt_loop_streamed:
  "decrypt_loop c k r m a i s h w = (q, w') \<Longrightarrow> aead_laws c \<Longrightarrow> a \<Longrightarrow>
     \<exists>d z p. w_stdout w' = w_stdout w @ d \<and> p = d @ z \<and> opened c k r m i (rd_bytes (w_stdin w)) p \<and>
       (\<forall>x. q = Ok x \<longrightarrow> z = [])"
proof (induction c k r m a i s h w rule: decrypt_loop.induct)
  case (1 c k r m a i s h w)
  then have a: "a = True" by simp
  let ?h = "\<lambda>pt. if m = 0x01 then h @ pt else h"
  obtain qc w1 where rd: "read_chunk c k r m i w = (qc, w1)" by fastforce
  have o1: "w_stdout w1 = w_stdout w" using keepsD [OF keeps_read_chunk rd] by (simp add: calm_iff)
  show ?case
  proof (cases "\<exists>ch. qc = Ok ch")
    case False
    then have "w' = w1 \<and> (\<forall>x. q \<noteq> Ok x)"
      using "1.prems"(1) rd unfolding decrypt_loop.simps [of c k r m a i s h w]
      by (cases qc) (auto simp: io_bind_def)
    with o1 show ?thesis by (auto intro: opened_stop)
  next
    case True
    then obtain t pt where ch: "qc = Ok (t, pt)" by auto
    note chunk = read_chunk_Ok [OF "1.prems"(2) rd [unfolded ch]]
    obtain qd w2 where dl: "deliver c a pt s w1 = (qd, w2)" by fastforce
    from deliver_streamed [OF dl [unfolded a]] obtain d z where d: "w_stdout w2 = w_stdout w1 @ d"
      "pt = d @ z" "\<forall>s'. qd = Ok s' \<longrightarrow> z = []" by blast
    have front: "opened c k r m i (rd_bytes (w_stdin w)) pt"
      using chunk(1,2) opened_last [of pt] opened_step [OF _ opened_stop, of pt]
      by (auto simp: check_framing_ok)
    show ?thesis
    proof (cases "\<exists>s1. qd = Ok s1 \<and> t \<noteq> 0x01")
      case False
      then have "w' = w2 \<and> ((\<exists>x. q = Ok x) \<longrightarrow> (\<exists>s1. qd = Ok s1))"
        using "1.prems"(1) rd ch dl unfolding decrypt_loop.simps [of c k r m a i s h w]
        by (cases qd) (auto simp: io_bind_def Let_def)
      with d o1 front show ?thesis by metis
    next
      case True
      then obtain s1 where s1: "qd = Ok s1" and t: "t \<noteq> 0x01" by blast
      with chunk(2) have t0: "t = 0x00" "length pt = CHUNK_SIZE" by (simp_all add: check_framing_ok)
      have rest: "decrypt_loop c k r m a (i + 1) s1 (?h pt) w2 = (q, w')"
        using "1.prems"(1) rd ch dl s1 t unfolding decrypt_loop.simps [of c k r m a i s h w]
        by (simp add: io_bind_def Let_def)
      have in2: "w_stdin w2 = w_stdin w1" using deliver_keeps_stdin dl s1 by blast
      from "1.IH" [OF rd [unfolded ch] refl refl dl [unfolded s1] t rest "1.prems"(2,3)]
      obtain d' z' p where r: "w_stdout w' = w_stdout w2 @ d'" "p = d' @ z'"
        "opened c k r m (i + 1) (rd_bytes (w_stdin w2)) p" "\<forall>x. q = Ok x \<longrightarrow> z' = []" by blast
      have "opened c k r m i (rd_bytes (w_stdin w)) (pt @ p)"
        using opened_step [OF t0(2) r(3)] chunk(1) t0(1) in2 by simp
      with d r o1 s1 show ?thesis by (intro exI [of _ "pt @ d'"] exI [of _ z'] exI [of _ "pt @ p"]) simp
    qed
  qed
qed


subsection \<open>The command\<close>

text \<open>A change followed only by stages that keep standard output is the first stage's.\<close>

lemma changes_headE:
  assumes "changes (io_bind m f) w w'" and "\<And>x. keeps w_stdout (f x)"
  obtains q v where "m w = (q, v)" and "w_stdout w' = w_stdout v" and "w_stdout v \<noteq> w_stdout w"
    and "\<forall>y. fst (io_bind m f w) = Ok y \<longrightarrow> (\<exists>x. q = Ok x)"
proof -
  obtain q v where q: "m w = (q, v)" by fastforce
  have "w_stdout w' = w_stdout v"
  proof (cases q)
    case (Ok x)
    with assms(1) q have "snd (f x v) = w'" by (simp add: changes_def io_bind_def)
    with assms(2) show ?thesis by (auto simp: keeps_def)
  qed (use assms(1) q in \<open>auto simp: changes_def io_bind_def\<close>)
  moreover have "\<exists>x. q = Ok x" if "fst (io_bind m f w) = Ok y" for y
    using that q by (cases q) (auto simp: io_bind_def)
  ultimately show ?thesis using that [OF q] assms(1) by (simp add: changes_def)
qed

lemma keeps_stdout_calm: "keeps calm m \<Longrightarrow> keeps w_stdout m"
  by (simp add: keeps_def calm_iff)

lemma keeps_read_header: "keeps w_stdout read_header"
  unfolding read_header_def by (intro quiet_rules)

lemma keeps_spooler_new: "keeps w_stdout (spooler_new limit)"
  unfolding spooler_new_def by (intro quiet_rules)

lemma keeps_after_loop:
  "keeps w_stdout (case x of (spooler, hashed) \<Rightarrow>
     io_bind (io_when b (verify_trailer c es au hm hashed)) (\<lambda>_. io_bind expect_eof (\<lambda>_. io_return spooler)))"
  unfolding verify_trailer_def check_sender_def expect_eof_def Let_def by (intro quiet_rules)

lemma read_header_Ok:
  assumes "read_header w = (Ok hdr, w')"
  shows "rd_bytes (w_stdin w) = hdr @ rd_bytes (w_stdin w')" and "length hdr = WIRE_HEADER_SIZE"
  using assms unfolding read_header_def by (auto elim!: io_bind_OkE io_try_OkE dest: stdin_read_exact_Inr)

lemma decrypt_verified_streamed:
  assumes "aead_laws c" and "changes (decrypt_verified c es au True limit priv) w w'"
  shows "\<exists>hdr mode pk msg p d z. length hdr = WIRE_HEADER_SIZE \<and> rd_bytes (w_stdin w) = hdr @ msg \<and>
    check_header (es \<noteq> None) au (verifying_key_of c priv) hdr = Inr mode \<and>
    header_payload_key c priv hdr = Inr pk \<and> opened c pk (slice hdr 38 70) mode 0 msg p \<and>
    w_stdout w' = w_stdout w @ d \<and> p = d @ z \<and>
    (\<forall>s. fst (decrypt_verified c es au True limit priv w) = Ok s \<longrightarrow> z = [])"
proof -
  let ?tail = "\<lambda>hdr mode (spooler, hashed).
     io_bind (io_when (mode = 0x01) (verify_trailer c es au (slice hdr 81 97) hashed)) (\<lambda>_.
     io_bind expect_eof (\<lambda>_. io_return spooler))"
  from assms(2) obtain hdr w1 mode pk s w2 where
    hd: "read_header w = (Ok hdr, w1)" and
    ck: "check_header (es \<noteq> None) au (verifying_key_of c priv) hdr = Inr mode" and
    pk: "header_payload_key c priv hdr = Inr pk" and
    sp: "spooler_new limit w1 = (Ok s, w2)" and
    ch: "changes (io_bind (decrypt_loop c pk (slice hdr 38 70) mode True 0 s []) (?tail hdr mode)) w2 w'"
    unfolding decrypt_verified_def
    by (elim changes_bindE [OF keeps_read_header] changes_bindE [OF keeps_spooler_new] changes_tryE) blast
  have o2: "w_stdout w2 = w_stdout w"
    using keepsD [OF keeps_read_header hd] keepsD [OF keeps_spooler_new sp] by simp
  have run: "fst (decrypt_verified c es au True limit priv w) =
      fst (io_bind (decrypt_loop c pk (slice hdr 38 70) mode True 0 s []) (?tail hdr mode) w2)"
    by (simp add: decrypt_verified_def io_bind_def [of read_header] io_bind_def [of "spooler_new limit"] hd ck pk sp
        del: not_None_eq)
  have keep: "keeps w_stdout (?tail hdr mode x)" for x by (cases x) (use keeps_after_loop in auto)
  from ch keep obtain q v where lp: "decrypt_loop c pk (slice hdr 38 70) mode True 0 s [] w2 = (q, v)"
    and v: "w_stdout w' = w_stdout v"
    and ok: "\<forall>y. fst (io_bind (decrypt_loop c pk (slice hdr 38 70) mode True 0 s []) (?tail hdr mode) w2) = Ok y \<longrightarrow> (\<exists>x. q = Ok x)"
    by (rule changes_headE)
  from decrypt_loop_streamed [OF lp assms(1)] obtain d z p where
    l: "w_stdout v = w_stdout w2 @ d" "p = d @ z"
      "opened c pk (slice hdr 38 70) mode 0 (rd_bytes (w_stdin w2)) p" "\<forall>x. q = Ok x \<longrightarrow> z = []" by blast
  have "w_stdin w2 = w_stdin w1" using spooler_new_Ok(4) [OF sp] by simp
  with l(3) have op: "opened c pk (slice hdr 38 70) mode 0 (rd_bytes (w_stdin w1)) p" by simp
  have "\<forall>s. fst (decrypt_verified c es au True limit priv w) = Ok s \<longrightarrow> z = []"
    unfolding run using ok l(4) by blast
  moreover have "w_stdout w' = w_stdout w @ d" using v l(1) o2 by simp
  ultimately show ?thesis using read_header_Ok [OF hd] ck pk op l(2) by blast
qed


text \<open>An authentic input is streamed to its end.\<close>

lemma run_decrypt_streams:
  assumes laws: "digest_laws c" "aead_laws c"
    and key: "load_secret_key c args w = (Ok priv, w1)" "signing_key c priv = Inr ()"
    and au: "authentic c priv es au (rd_bytes (w_stdin w)) p"
    and w: "smooth (w_stdin w)" "faithful w"
  shows "\<exists>w'. run_decrypt c es au True None args w = (Ok (), w') \<and> w_stdout w' = w_stdout w @ p"
proof -
  note step = keepsD [OF keeps_load_secret_key key(1)]
  have w1: "w_stdin w1 = w_stdin w" "w_stdout w1 = w_stdout w" "faithful w1"
    using intake_view_fields(1,2) [OF step] intake_view_faithful [OF step] w(2) by simp_all
  from decrypt_verified_complete [OF laws, of priv es au w1 p True] au w w1 obtain s w2 where
    "decrypt_verified c es au True None priv w1 = (Ok s, w2)" "w_stdout w2 = w_stdout w @ p" by auto
  then show ?thesis by (simp add: run_decrypt_def io_bind_def key)
qed

subsection \<open>Properties\<close>

text \<open>
  C25. With \<open>--allow-unverified-stream\<close> the program releases only chunks that opened: whatever
  it writes, and whatever the outcome, is a prefix of the plaintext of chunks at the front of
  the input that are sealed under consecutive counters with the key of a header that passed
  all its checks (all of that plaintext when the command succeeds); and from an authentic input
  it is a prefix of that input's plaintext.
\<close>

theorem unverified_stream_prefix:
  assumes "digest_laws c" and "aead_laws c"
    and "run_decrypt c es au True limit args w = (r, w')" and "w_stdout w' \<noteq> w_stdout w"
  shows "\<exists>priv w1 hdr mode pk msg p d z. load_secret_key c args w = (Ok priv, w1) \<and>
    length hdr = WIRE_HEADER_SIZE \<and> rd_bytes (w_stdin w) = hdr @ msg \<and>
    check_header (es \<noteq> None) au (verifying_key_of c priv) hdr = Inr mode \<and>
    header_payload_key c priv hdr = Inr pk \<and> opened c pk (slice hdr 38 70) mode 0 msg p \<and>
    w_stdout w' = w_stdout w @ d \<and> p = d @ z \<and> (r = Ok () \<longrightarrow> z = []) \<and>
    (\<forall>es' au' P. authentic c priv es' au' (rd_bytes (w_stdin w)) P \<longrightarrow> (\<exists>y. P = d @ y))"
proof -
  let ?body = "decrypt_verified c es au True limit"
  have "changes (run_decrypt c es au True limit args) w w'" using assms(3,4) by (simp add: changes_def)
  then obtain priv w1 where load: "load_secret_key c args w = (Ok priv, w1)" and sk: "signing_key c priv = Inr ()"
    and ch: "changes (io_bind (?body priv) (\<lambda>_. io_return ())) w1 w'"
    unfolding run_decrypt_def
    by (elim changes_bindE [OF keeps_load_stdout] changes_tryE) simp
  have w1: "w_stdin w1 = w_stdin w" "w_stdout w1 = w_stdout w"
    by (rule intake_view_fields(1,2) [OF keepsD [OF keeps_load_secret_key load]])+
  from ch obtain q where dv: "?body priv w1 = (q, w')"
    by (cases "?body priv w1"; cases "fst (?body priv w1)") (auto simp: changes_def io_bind_def)
  with ch have "changes (?body priv) w1 w'" by (auto simp: changes_def)
  from decrypt_verified_streamed [OF assms(2) this] obtain hdr mode pk msg p d z where
    s: "length hdr = WIRE_HEADER_SIZE" "rd_bytes (w_stdin w) = hdr @ msg"
    "check_header (es \<noteq> None) au (verifying_key_of c priv) hdr = Inr mode" "header_payload_key c priv hdr = Inr pk"
    "opened c pk (slice hdr 38 70) mode 0 msg p" "w_stdout w' = w_stdout w @ d" "p = d @ z"
    "\<forall>s. fst (?body priv w1) = Ok s \<longrightarrow> z = []"
    unfolding w1 by blast
  have "\<exists>s. fst (?body priv w1) = Ok s" if "r = Ok ()"
    using that assms(3) load sk dv by (cases q) (auto simp: run_decrypt_def io_bind_def)
  with s(8) have full: "r = Ok () \<longrightarrow> z = []" by blast
  have "\<exists>y. P = d @ y" if "authentic c priv es' au' (rd_bytes (w_stdin w)) P" for es' au' P
  proof -
    from that obtain hdr' mode' pk' bs tr where h: "length hdr' = WIRE_HEADER_SIZE"
      "check_header (es' \<noteq> None) au' (verifying_key_of c priv) hdr' = Inr mode'"
      "header_payload_key c priv hdr' = Inr pk'" "framed bs" "P = concat bs"
      "rd_bytes (w_stdin w) = hdr' @ wire_stream c pk' (slice hdr' 38 70) mode' 0 bs @ tr"
      unfolding authentic_def by blast
    have hd: "hdr' = hdr" using h(1,6) s(1,2) by (metis append_eq_append_conv)
    have "mode' = hdr ! 5" "mode = hdr ! 5"
      using h(2) s(3) hd by (auto simp: check_header_def Let_def split: if_splits)
    then have m: "mode' = mode" by simp
    have k: "pk' = pk" using h(3) s(4) hd by simp
    have "msg = wire_stream c pk (slice hdr 38 70) mode 0 bs @ tr"
      using h(6) s(2) unfolding hd m k by simp
    from opened_prefix [OF assms(2) header_payload_key_length [OF assms(1) s(4)] s(5) h(4) this] s(7) h(5)
    show ?thesis by auto
  qed
  with load s(1-7) full show ?thesis by blast
qed


theorem unverified_stream_prefix_witness:
  "\<exists>input w' p d z. w_stdout w' = d \<and> d = [1, 2] \<and> p = d @ z \<and>
     run_decrypt demo None False True None sample_args (sample_world input) = (Ok (), w') \<and> z = []"
proof -
  have live: "live [Data [1, 2 :: u8]]" and len: "length (rd_bytes [Data [1, 2]]) + 1 < 2 ^ 64"
    and mode: "sample_mode 0x02 None False" by (simp_all add: sample_mode_def)
  obtain w0 :: world where au: "authentic demo sample_secret None False (w_stdout w0) (rd_bytes [Data [1, 2]])"
    and ne: "w_stdout w0 \<noteq> []"
    by (rule sample_message [OF live mode len])
  let ?w = "sample_world [Data (w_stdout w0)]"
  have w: "smooth (w_stdin ?w)" "authentic demo sample_secret None False (rd_bytes (w_stdin ?w)) [1, 2]"
    using au ne by simp_all
  obtain w' where run: "run_decrypt demo None False True None sample_args ?w = (Ok (), w')"
    and out: "w_stdout w' = [1, 2]"
    using run_decrypt_streams [OF demo_digest demo_aead sample_load sample_keys(1) w(2,1)] by auto
  have "w_stdout w' \<noteq> w_stdout ?w" using out by simp
  from unverified_stream_prefix [OF demo_digest demo_aead run this] obtain p d z where
    "w_stdout w' = w_stdout ?w @ d" "p = d @ z" "z = []" by blast
  then have "w_stdout w' = d" "d = [1, 2]" "p = d @ z" "z = []" using out by simp_all
  with run show ?thesis by blast
qed

text \<open>
  C11. On an authentic input streaming and spooling agree: with and without
  \<open>--allow-unverified-stream\<close> the command succeeds and writes the same bytes, the plaintext.
\<close>

theorem stream_spool_agree:
  assumes "digest_laws c" and "aead_laws c"
    and "load_secret_key c args w = (Ok priv, w1)" and "signing_key c priv = Inr ()"
    and "authentic c priv es au (rd_bytes (w_stdin w)) p" and "length p < 2 ^ 64"
    and "smooth (w_stdin w)" and "faithful w"
  shows "\<exists>v w'. run_decrypt c es au False None args w = (Ok (), v) \<and>
    run_decrypt c es au True None args w = (Ok (), w') \<and>
    w_stdout v = w_stdout w @ p \<and> w_stdout w' = w_stdout v"
  using run_decrypt_complete [OF assms] run_decrypt_streams [OF assms(1-5,7,8)] by auto

theorem stream_spool_agree_witness:
  "\<exists>input v w'. run_decrypt demo None True False None sample_args (sample_world input) = (Ok (), v) \<and>
     run_decrypt demo None True True None sample_args (sample_world input) = (Ok (), w') \<and> w_stdout v = w_stdout w'"
proof -
  have live: "live [Data [1, 2 :: u8]]" and len: "length (rd_bytes [Data [1, 2]]) + 1 < 2 ^ 64"
    and mode: "sample_mode 0x01 None True" by (simp_all add: sample_mode_def)
  obtain w0 :: world where au: "authentic demo sample_secret None True (w_stdout w0) (rd_bytes [Data [1, 2]])"
    and ne: "w_stdout w0 \<noteq> []"
    by (rule sample_message [OF live mode len])
  let ?w = "sample_world [Data (w_stdout w0)]"
  have w: "smooth (w_stdin ?w)" "authentic demo sample_secret None True (rd_bytes (w_stdin ?w)) [1, 2]"
    using au ne by simp_all
  have "length [1, 2 :: u8] < 2 ^ 64" by simp
  from stream_spool_agree [OF demo_digest demo_aead sample_load sample_keys(1) w(2) this w(1)]
  obtain v w' where "run_decrypt demo None True False None sample_args ?w = (Ok (), v)"
    "run_decrypt demo None True True None sample_args ?w = (Ok (), w')" "w_stdout w' = w_stdout v" by auto
  then show ?thesis by metis
qed

end
