(* ===== verification/Process.thy ===== *)
theory Process
  imports Robust Unverified
begin

text \<open>
  The process of \<open>rust/src/main.rs\<close> from its arguments on: what the option loops of
  \<open>dispatch_command\<close> can turn on, the exit code and the message of \<open>real_main\<close>, and the
  commands that only print.
\<close>

subsection \<open>Options\<close>

lemma decrypt_loop_args_flag:
  "d_allow_unverified (decrypt_loop_args o1 args) \<Longrightarrow>
     d_allow_unverified o1 \<or> ''--allow-unverified-stream'' \<in> set args"
proof (induction o1 args rule: decrypt_loop_args.induct)
  case (2 o1 arg rest)
  show ?case
  proof (cases "arg = ''--allow-unverified-stream''")
    case False
    with 2 show ?thesis
      by (cases rest) (auto simp: decrypt_loop_args.simps split: if_splits)
  qed simp
qed (simp add: decrypt_loop_args.simps)

lemma encrypt_loop_args_recipient:
  "''--recipient'' \<notin> set args \<Longrightarrow> e_recipient (encrypt_loop_args o1 args) = e_recipient o1"
  by (induction o1 args rule: encrypt_loop_args.induct) (auto simp: encrypt_loop_args.simps)

subsection \<open>The exit code\<close>

lemma exit_code_nonzero: "exit_code e \<noteq> 0"
  by (cases e) auto

lemma real_main_Exit:
  assumes "2 \<le> length args" and "\<not> is_git_invocation args" and "real_main c g args w = (Exit n, w')"
  obtains "n = 0" and "dispatch_command c args (w\<lparr>w_dumpable := False\<rparr>) = (Ok (), w')"
    | e v where "n = exit_code e" and "dispatch_command c args (w\<lparr>w_dumpable := False\<rparr>) = (Err e, v)"
        and "w' = v\<lparr>w_stderr := w_stderr v @ [''Error: '' @ fmt_error e]\<rparr>"
  using assms by (auto simp: real_main_def Let_def eprintln_def split: prod.splits res.splits)

lemma real_main_outcome:
  assumes "2 \<le> length args" and "\<not> is_git_invocation args" and "real_main c g args w = (oc, w')"
  shows "\<exists>r v. dispatch_command c args (w\<lparr>w_dumpable := False\<rparr>) = (r, v) \<and> w_stdout w' = w_stdout v \<and>
    (oc = Exit 0 \<longrightarrow> r = Ok ())"
  using assms exit_code_nonzero
  by (auto simp: real_main_def Let_def eprintln_def split: prod.splits res.splits)

lemma dumpable_fields [simp]:
  "w_stdin (w\<lparr>w_dumpable := b\<rparr>) = w_stdin w" "w_stdout (w\<lparr>w_dumpable := b\<rparr>) = w_stdout w"
  "w_disk_view (w\<lparr>w_dumpable := b\<rparr>) = w_disk_view w" by simp_all



text \<open>
  C3. Zero release at the level of the process: \<open>pipe-k1 decrypt\<close> without the argument
  \<open>--allow-unverified-stream\<close> changes standard output, or exits with 0, only when the whole
  input is authentic for the key that loaded, and what it writes is a prefix of the plaintext.
\<close>

theorem process_zero_rup:
  assumes "digest_laws c" and "aead_laws c" and "live (w_stdin w)"
    and "length (rd_bytes (w_stdin w)) < 2 ^ 64" and "w_disk_view w = (\<lambda>d. [Data d])"
    and "2 \<le> length args" and "\<not> is_git_invocation args" and "args ! 1 = ''decrypt''"
    and "''--allow-unverified-stream'' \<notin> set (drop 2 args)"
    and "opts = decrypt_loop_args \<lparr> d_sender = None, d_allow_untrusted = False, d_allow_unverified = False,
      d_max_size = None \<rparr> (drop 2 args)"
    and "real_main c g args w = (oc, w')" and "w_stdout w' \<noteq> w_stdout w \<or> oc = Exit 0"
  shows "\<exists>priv v p d z.
    load_secret_key c (parse_key_intake_args args 2) (w\<lparr>w_dumpable := False\<rparr>) = (Ok priv, v) \<and>
    authentic c priv (d_sender opts) (d_allow_untrusted opts) (rd_bytes (w_stdin w)) p \<and> w_stdout w' = w_stdout w @ d \<and> p = d @ z \<and>
    (oc = Exit 0 \<longrightarrow> z = [])"
proof -
  let ?w = "w\<lparr>w_dumpable := False\<rparr>"
  have flag: "d_allow_unverified opts = False" unfolding assms(10) using decrypt_loop_args_flag assms(9) by fastforce
  obtain r v where run: "dispatch_command c args ?w = (r, v)" "w_stdout w' = w_stdout v" "oc = Exit 0 \<longrightarrow> r = Ok ()"
    using real_main_outcome [OF assms(6,7,11)] by blast
  then have dec: "run_decrypt c (d_sender opts) (d_allow_untrusted opts) False (d_max_size opts)
      (parse_key_intake_args args 2) ?w = (r, v)"
    using assms(8) flag by (simp add: dispatch_command_def decrypt_command_def Let_def assms(10))
  have "live (w_stdin ?w)" "w_stdout v \<noteq> w_stdout ?w \<or> r = Ok ()" using assms(3,12) run(2,3) by auto
  from run_decrypt_sound [OF assms(2) this(1) dec this(2)] obtain priv w1 p where
    s: "load_secret_key c (parse_key_intake_args args 2) ?w = (Ok priv, w1)"
      "authentic c priv (d_sender opts) (d_allow_untrusted opts) (rd_bytes (w_stdin ?w)) p"
      "length p < 2 ^ 64 \<longrightarrow> (\<exists>d z. w_stdout v = w_stdout ?w @ d \<and> p = d @ z \<and> (r = Ok () \<longrightarrow> z = []))"
    using assms(5) by auto
  have "length p < 2 ^ 64" using authentic_length [OF assms(1,2) s(2)] assms(4) by simp
  with s(3) obtain d z where "w_stdout v = w_stdout ?w @ d" "p = d @ z" "r = Ok () \<longrightarrow> z = []" by blast
  with s(1,2) run(2,3) show ?thesis
    by (intro exI [of _ priv] exI [of _ w1] exI [of _ p] exI [of _ d] exI [of _ z]) simp
qed

theorem process_zero_rup_witness:
  "\<exists>msg w'. real_main demo demo_git [''pipe-k1'', ''decrypt'', ''--sec-file'', ''key'', ''--allow-untrusted-sender'']
       (sample_world [Data msg]) = (Exit 0, w') \<and> w_stdout w' = [1, 2, 3] \<and>
     (\<exists>p. authentic demo sample_secret None True msg p \<and> p = w_stdout w')"
proof -
  let ?args = "[''pipe-k1'', ''decrypt'', ''--sec-file'', ''key'', ''--allow-untrusted-sender'']"
  let ?opts = "decrypt_loop_args \<lparr> d_sender = None, d_allow_untrusted = False, d_allow_unverified = False,
      d_max_size = None \<rparr> (drop 2 ?args)"
  have opts: "?opts = \<lparr> d_sender = None, d_allow_untrusted = True, d_allow_unverified = False, d_max_size = None \<rparr>"
    by (simp add: decrypt_loop_args.simps)
  have ka: "parse_key_intake_args ?args 2 = sample_args"
    by (simp add: parse_key_intake_args_def key_intake_loop.simps no_key_args_def sample_args_def)
  have git: "\<not> is_git_invocation ?args" by (simp add: is_git_invocation_def exe_name_def)
  have live: "live [Data [1, 2, 3 :: u8]]" and len: "length (rd_bytes [Data [1, 2, 3]]) + 1 < 2 ^ 64"
    and mode: "sample_mode 0x01 None True" by (simp_all add: sample_mode_def)
  obtain w0 :: world where au: "authentic demo sample_secret None True (w_stdout w0) (rd_bytes [Data [1, 2, 3]])"
    and ne: "w_stdout w0 \<noteq> []" and small: "length (w_stdout w0) \<le> 22 * length (rd_bytes [Data [1, 2, 3]]) + 215"
    by (rule sample_message [OF live mode len])
  let ?w = "sample_world [Data (w_stdout w0)]" let ?v = "?w\<lparr>w_dumpable := False\<rparr>"
  have load: "load_secret_key demo sample_args ?v = (Ok sample_secret, scrubbed ?v)"
    by (rule load_sample_file) (simp add: sample_world_def)
  have v: "smooth (w_stdin ?v)" "faithful ?v" using ne by (simp_all add: sample_world_def demo_world_def faithful_def)
  obtain w' where run: "run_decrypt demo None True False None sample_args ?v = (Ok (), w')"
    and out: "w_stdout w' = [1, 2, 3]"
    using run_decrypt_complete [OF demo_digest demo_aead load sample_keys(1) _ _ v, of None True "[1, 2, 3]"] au by auto
  have main: "real_main demo demo_git ?args ?w = (Exit 0, w')"
    using git run by (simp add: real_main_def dispatch_command_def decrypt_command_def Let_def opts [simplified] ka)
  have w: "live (w_stdin ?w)" "length (rd_bytes (w_stdin ?w)) < 2 ^ 64" using ne small by simp_all
  have "\<exists>priv v p d z. load_secret_key demo (parse_key_intake_args ?args 2) ?v = (Ok priv, v) \<and>
    authentic demo priv (d_sender ?opts) (d_allow_untrusted ?opts) (rd_bytes (w_stdin ?w)) p \<and>
    w_stdout w' = w_stdout ?w @ d \<and> p = d @ z \<and> (Exit 0 = Exit 0 \<longrightarrow> z = [])"
    by (rule process_zero_rup [OF demo_digest demo_aead w _ _ git _ _ refl main]) simp_all
  then have "\<exists>p. authentic demo sample_secret None True (w_stdout w0) p \<and> p = w_stdout w'"
    unfolding ka load opts by auto
  with main out show ?thesis by blast
qed

subsection \<open>Commands that only print\<close>

text \<open>
  \<open>encrypt\<close> without \<open>--recipient\<close> is a usage error with exit code 2, and touches nothing: no
  key is loaded, no random byte drawn, nothing read or written but the message.
\<close>

theorem encrypt_needs_recipient:
  assumes "2 \<le> length args" and "\<not> is_git_invocation args" and "args ! 1 = ''encrypt''"
    and "''--recipient'' \<notin> set (drop 2 args)"
  shows "real_main c g args w = (Exit 2, w\<lparr>w_dumpable := False, w_stderr := w_stderr w @
    [''Error: Usage error: Missing mandatory argument: --recipient <npub|hex>'']\<rparr>)"
  using assms encrypt_loop_args_recipient [OF assms(4)]
  by (simp add: real_main_def dispatch_command_def encrypt_command_def eprintln_def Let_def)

theorem encrypt_needs_recipient_witness:
  "fst (real_main demo demo_git [''pipe-k1'', ''encrypt'', ''--mode'', ''1''] demo_world) = Exit 2"
  by (subst encrypt_needs_recipient) (simp_all add: is_git_invocation_def exe_name_def)

text \<open>
  C37. \<open>pubkey\<close> prints the key twice, and both texts parse back to it: the public key of the
  loaded secret in hexadecimal and as an npub.
\<close>

theorem pubkey_prints_key:
  assumes "codec_laws c" and "load_secret_key c (parse_key_intake_args args 2) w = (Ok sk, w1)"
    and "signing_key c sk = Inr ()" and "length (verifying_key_of c sk) = 32" and "w_room w = None"
  shows "\<exists>hex npub w'. pubkey_command c args w = (Ok (), w') \<and>
    w_stdout w' = w_stdout w @ str_bytes (''Hex:  '' @ hex @ nl @ ''Npub: '' @ npub @ nl) \<and>
    parse_key_bytes c hex = Inr (verifying_key_of c sk) \<and> parse_key_bytes c npub = Inr (verifying_key_of c sk)"
proof -
  let ?pk = "verifying_key_of c sk"
  note same = intake_view_fields(1,8) [OF keepsD [OF keeps_load_secret_key assms(2)]]
  obtain npub where npub: "encode_npub c ?pk = Some npub" using npub_total [OF assms(1,4)] by blast
  have load: "load_signing_key c (parse_key_intake_args args 2) w = (Ok sk, w1)"
    by (simp add: load_signing_key_def io_bind_def assms(2,3))
  have room: "w_room w1 = None" using same(2) assms(5) by simp
  obtain w' where "pubkey_command c args w = (Ok (), w')"
    "w_stdout w' = w_stdout w @ str_bytes ((''Hex:  '' @ hex_encode c ?pk) @ [newline]) @
      str_bytes ((''Npub: '' @ npub) @ [newline])"
    using room same(1)
    by (simp add: pubkey_command_def io_bind_def load npub println_room del: append.simps append_assoc)
  moreover have "parse_key_bytes c npub = Inr ?pk"
    using parse_key_bech32 [OF assms(1,4)] npub by (auto simp: encode_npub_def)
  ultimately show ?thesis
    using parse_key_hex [OF assms(1,4)]
    by (intro exI [of _ "hex_encode c ?pk"] exI [of _ npub] exI [of _ w']) (simp add: str_bytes_def nl_def)
qed

theorem pubkey_prints_key_witness:
  "\<exists>hex npub w'. pubkey_command demo [''pipe-k1'', ''pubkey''] (shim_world [] []) = (Ok (), w') \<and>
     parse_key_bytes demo hex = parse_key_bytes demo npub"
proof -
  have "parse_key_intake_args [''pipe-k1'', ''pubkey''] 2 = no_key_args"
    by (simp add: parse_key_intake_args_def key_intake_loop.simps)
  then have "load_secret_key demo (parse_key_intake_args [''pipe-k1'', ''pubkey''] 2) (shim_world [] []) =
      (Ok sample_secret, scrubbed (shim_world [] []))" by (simp only: shim_load)
  from pubkey_prints_key [OF demo_codec this sample_keys] show ?thesis by fastforce
qed

text \<open>
  \<open>inspect-header\<close> on an input that does not fail: an input shorter than a header is an error,
  one with another magic is a corruption error, neither prints anything; any other prints the
  fields of the first 97 bytes, and nothing is checked beyond the magic.
\<close>

theorem inspect_header_cases:
  assumes "live (w_stdin w)" and "w_room w = None"
    and h_def: "h = take WIRE_HEADER_SIZE (rd_bytes (w_stdin w))"
  shows "\<exists>w'. inspect_header_command c w =
    (if length h < WIRE_HEADER_SIZE then Err (Io eof_error)
     else if slice h 0 4 \<noteq> MAGIC_HEADER then Err (WireCorruption ''Invalid magic bytes (expected PK01)'')
     else Ok (), w') \<and>
    w_stdout w' = w_stdout w @
      (if length h = WIRE_HEADER_SIZE \<and> slice h 0 4 = MAGIC_HEADER
       then str_bytes (armor_text
         [''Valid pipe-k1 Wire Header (97 bytes):'',
          ''  Magic:        '' @ bytes_str MAGIC_HEADER,
          ''  Version:      0x'' @ show_hex2 (h ! 4),
          ''  Mode:         0x'' @ show_hex2 (h ! 5),
          ''  EphemeralPub: '' @ hex_encode c (slice h 6 38),
          ''  RecipientPub: '' @ hex_encode c (slice h 38 70),
          ''  Salt (11B):   '' @ hex_encode c (slice h 70 81),
          ''  HMAC (16B):   '' @ hex_encode c (slice h 81 97)]) else [])"
proof (cases "length (rd_bytes (w_stdin w)) < WIRE_HEADER_SIZE")
  case True
  then obtain rs where "read_exact WIRE_HEADER_SIZE (w_stdin w) = (Inl eof_error, rs)"
    using read_exact_live_short [OF assms(1)] by blast
  with True show ?thesis
    by (simp add: inspect_header_command_def io_bind_def stdin_read_exact_def h_def from_io_def)
next
  case False
  then obtain rs where rs: "read_exact WIRE_HEADER_SIZE (w_stdin w) = (Inr h, rs)"
    using read_exact_live [OF assms(1), of WIRE_HEADER_SIZE] unfolding h_def by auto
  have len: "length h = WIRE_HEADER_SIZE" using False by (simp add: h_def)
  have rd: "stdin_read_exact WIRE_HEADER_SIZE w = (Ok (Inr h), w\<lparr>w_stdin := rs\<rparr>)"
    by (simp add: stdin_read_exact_def rs)
  show ?thesis
  proof (cases "slice h 0 4 = MAGIC_HEADER")
    case True
    have room: "w_room (w\<lparr>w_stdin := rs\<rparr>) = None" using assms(2) by simp
    show ?thesis
      unfolding inspect_header_command_def
      by (simp add: io_bind_def rd True len print_lines_room [OF room] del: append.simps print_lines.simps)
  qed (simp add: inspect_header_command_def io_bind_def rd len)
qed

theorem inspect_header_cases_witness:
  "\<exists>w'. inspect_header_command demo (demo_world\<lparr>w_stdin := [Data [1, 2, 3]]\<rparr>) = (Err (Io eof_error), w') \<and> w_stdout w' = []"
  using inspect_header_cases [OF _ _ refl, of "demo_world\<lparr>w_stdin := [Data [1, 2, 3]]\<rparr>" demo]
  by (simp add: demo_world_def WIRE_HEADER_SIZE_def)

text \<open>
  \<open>hash\<close> prints the tagged hash of all of standard input: SHA-256 of the tag's digest
  twice and the input, with the tag given or the signing tag.
\<close>

theorem hash_prints_digest:
  assumes "live (w_stdin w)" and "w_room w = None" and "tag = (if 2 < length args then args ! 2 else TAG_SIGN)"
  shows "\<exists>w'. hash_command c args w = (Ok (), w') \<and>
    w_stdout w' = w_stdout w @ str_bytes (hex_encode c (sha256 c
      (sha256 c (str_bytes tag) @ sha256 c (str_bytes tag) @ rd_bytes (w_stdin w))) @ nl)"
proof -
  have rd: "stdin_read_to_end w = (Ok (Inr (rd_bytes (w_stdin w))), w\<lparr>w_stdin := []\<rparr>)"
    using read_to_end_live [OF assms(1), of "[]"] by (simp add: stdin_read_to_end_def)
  show ?thesis
    unfolding hash_command_def Let_def assms(3) [symmetric]
    by (simp add: io_bind_def rd println_room assms(2) tagged_hash_def nl_def Let_def)
qed

theorem hash_prints_digest_witness:
  "\<exists>w'. hash_command demo [''pipe-k1'', ''hash''] (sample_world [Data [1]]) = (Ok (), w')"
  using hash_prints_digest [OF _ _ refl, of "sample_world [Data [1]]" demo "[''pipe-k1'', ''hash'']"] by auto

end
