(* ===== verification/CivilDate.thy ===== *)
theory CivilDate
  imports GitShim
begin

text \<open>
  The date the git shim prints (\<open>run_git_shim\<close> in \<open>rust/src/main.rs\<close>) against the civil
  calendar. \<open>day_number\<close> is the reference, counted year by year and month by month from
  1970-01-01. The code divides by 1024, 1461 and 142401 where the known algorithm divides by
  1460, 36524 and 146096: the lemmas show that the year it computes is still right from the
  second day of March to the end of December, and the last one that it is not in February.
\<close>

subsection \<open>The calendar\<close>

definition is_leap :: "nat \<Rightarrow> bool" where
  "is_leap y \<longleftrightarrow> y mod 4 = 0 \<and> (y mod 100 \<noteq> 0 \<or> y mod 400 = 0)"

definition year_days :: "nat \<Rightarrow> nat" where
  "year_days y = (if is_leap y then 366 else 365)"

definition month_days :: "nat \<Rightarrow> nat \<Rightarrow> nat" where
  "month_days y m =
     (if m = 2 then (if is_leap y then 29 else 28)
      else if m \<in> {4, 6, 9, 11} then 30 else 31)"

text \<open>Days from 1970-01-01 to the given day.\<close>

definition day_number :: "nat \<Rightarrow> nat \<Rightarrow> nat \<Rightarrow> nat" where
  "day_number y m d =
     sum_list (map year_days [1970..<y]) + sum_list (map (month_days y) [1..<m]) + (d - 1)"

text \<open>The same by division, for a day \<open>n\<close> days after the first of March.\<close>

lemma year_days_sum:
  "1970 \<le> y \<Longrightarrow> sum_list (map year_days [1970..<y]) + 719162 + (y - 1) div 100 =
     365 * (y - 1) + (y - 1) div 4 + (y - 1) div 400"
proof (induction y rule: dec_induct)
  case (step y)
  obtain x where y: "y = Suc x" using step.hyps(1) by (cases y) auto
  define a b c :: nat where "a = of_bool (y mod 4 = 0)" and "b = of_bool (y mod 100 = 0)"
    and "c = of_bool (y mod 400 = 0)"
  have d: "y div 4 = x div 4 + a" "y div 100 = x div 100 + b" "y div 400 = x div 400 + c"
    unfolding y a_def b_def c_def by (simp_all add: div_Suc)
  have imp: "y mod 400 = 0 \<Longrightarrow> y mod 100 = 0" "y mod 100 = 0 \<Longrightarrow> y mod 4 = 0"
    unfolding mod_eq_0_iff_dvd by (erule dvd_trans [rotated], simp)+
  have days: "year_days y + b = 365 + a + c"
    using imp by (cases "y mod 4 = 0"; cases "y mod 100 = 0"; cases "y mod 400 = 0")
      (simp_all add: year_days_def is_leap_def a_def b_def c_def)
  have sum: "sum_list (map year_days [1970..<Suc y]) = sum_list (map year_days [1970..<y]) + year_days y"
    using step.hyps(1) by simp
  have "y - 1 = x" "Suc y - 1 = y" using y by simp_all
  with step.IH have IH: "sum_list (map year_days [1970..<y]) + 719162 + x div 100 = 365 * x + x div 4 + x div 400"
    by simp
  have "365 * y = 365 * x + 365" using y by simp
  with IH days show ?case
    unfolding sum \<open>Suc y - 1 = y\<close> d by linarith
qed simp

text \<open>Months from March on start where the code's formula puts them.\<close>

definition march_day :: "nat \<Rightarrow> nat \<Rightarrow> nat" where
  "march_day m d = (153 * (m - 3) + 2) div 5 + (d - 1)"

lemma month_cases:
  fixes m :: nat
  assumes "3 \<le> m" and "m \<le> 12"
  obtains "m = 3" | "m = 4" | "m = 5" | "m = 6" | "m = 7" | "m = 8" | "m = 9" | "m = 10" | "m = 11" | "m = 12"
proof -
  have "m = 3 \<or> m = 4 \<or> m = 5 \<or> m = 6 \<or> m = 7 \<or> m = 8 \<or> m = 9 \<or> m = 10 \<or> m = 11 \<or> m = 12"
    using assms by presburger
  then show ?thesis using that by blast
qed

lemma months_sum:
  assumes "3 \<le> m" and "m \<le> 12"
  shows "sum_list (map (month_days y) [1..<m]) + 306 = year_days y + (153 * (m - 3) + 2) div 5"
  using assms by (cases m rule: month_cases) (simp_all add: upt_rec month_days_def year_days_def)

lemma day_number_march:
  assumes "1970 \<le> y" and "3 \<le> m" and "m \<le> 12"
  shows "day_number y m d + 719468 + y div 100 = 365 * y + y div 4 + y div 400 + march_day m d"
proof -
  have "sum_list (map year_days [1970..<Suc y]) + 719162 + y div 100 = 365 * y + y div 4 + y div 400"
    using year_days_sum [of "Suc y"] assms(1) by simp
  moreover have "sum_list (map year_days [1970..<Suc y]) = sum_list (map year_days [1970..<y]) + year_days y"
    using assms(1) by simp
  ultimately show ?thesis
    using months_sum [OF assms(2,3), of y] unfolding day_number_def march_day_def by linarith
qed

text \<open>The number of the day in its 400-year era, which starts on the first of March.\<close>

definition era_day :: "nat \<Rightarrow> nat \<Rightarrow> nat" where
  "era_day k n = 365 * k + k div 4 - k div 100 + n"

lemma era_split:
  assumes "1970 \<le> y" and "3 \<le> m" and "m \<le> 12"
  shows "day_number y m d + 719468 = 146097 * (y div 400) + era_day (y mod 400) (march_day m d)"
proof -
  define e k where "e = y div 400" and "k = y mod 400"
  have y: "y = 400 * e + k" by (simp add: e_def k_def)
  have d: "y div 4 = 100 * e + k div 4" "y div 100 = 4 * e + k div 100" "y div 400 = e"
    unfolding y by (simp_all add: k_def)
  have "k div 100 \<le> k div 4" by (simp add: div_le_mono2)
  then obtain a where a: "365 * k + k div 4 = a + k div 100"
    by (metis add.commute le_Suc_ex trans_le_add2)
  moreover have "day_number y m d + 719468 + (4 * e + k div 100) =
      365 * (400 * e + k) + (100 * e + k div 4) + e + march_day m d"
    using day_number_march [OF assms, of d] unfolding d using y by simp
  ultimately have "day_number y m d + 719468 = 146097 * e + (a + march_day m d)" by simp
  then show ?thesis unfolding era_day_def e_def [symmetric] k_def [symmetric] a by simp
qed

lemma march_day_bound:
  assumes "3 \<le> m" and "m \<le> 12" and "1 \<le> d" and "d \<le> month_days y m"
  shows "march_day m d \<le> 305" and "(m, d) \<noteq> (3, 1) \<Longrightarrow> 1 \<le> march_day m d"
    and "(5 * march_day m d + 2) div 153 = m - 3"
proof -
  show "march_day m d \<le> 305"
    using assms by (cases m rule: month_cases) (simp_all add: march_day_def month_days_def)
  show "(m, d) \<noteq> (3, 1) \<Longrightarrow> 1 \<le> march_day m d"
    using assms by (cases m rule: month_cases) (auto simp: march_day_def)
  show "(5 * march_day m d + 2) div 153 = m - 3"
    using assms by (cases m rule: month_cases) (simp_all add: march_day_def month_days_def)
qed


subsection \<open>The year the code computes\<close>

definition code_year :: "int \<Rightarrow> int" where
  "code_year t = t - t div 1024 + t div 1461 - t div 142401"

lemma div_step: "0 < n \<Longrightarrow> (t + 1) div n = t div n + of_bool ((t + 1) mod n = 0)" for t n :: int
proof -
  assume n: "0 < n"
  show ?thesis
  proof (cases "(t + 1) mod n = 0")
    case True
    then obtain q where "t + 1 = n * q" by auto
    then have "t = n * (q - 1) + (n - 1)" by (simp add: algebra_simps)
    moreover have "(n * (q - 1) + (n - 1)) div n = q - 1" using n by simp
    ultimately have "t div n = q - 1" by metis
    with \<open>t + 1 = n * q\<close> n True show ?thesis by simp
  next
    case False
    with n have "0 \<le> (t + 1) mod n - 1" "(t + 1) mod n - 1 < n"
      by (metis int_one_le_iff_zero_less le_iff_diff_le_0 not_less order_le_less pos_mod_sign diff_ge_0_iff_ge)
        (use n pos_mod_bound [of n "t + 1"] in linarith)
    moreover have "t = n * ((t + 1) div n) + ((t + 1) mod n - 1)"
      using mult_div_mod_eq [of n "t + 1"] by linarith
    ultimately have "t div n = (t + 1) div n" by (metis int_div_pos_eq)
    with False show ?thesis by simp
  qed
qed

lemma code_year_step:
  assumes "0 \<le> t" and "t < 146096"
  shows "code_year t \<le> code_year (t + 1)"
proof -
  have "\<not> ((t + 1) mod 1024 = 0 \<and> (t + 1) mod 142401 = 0)"
  proof
    assume a: "(t + 1) mod 1024 = 0 \<and> (t + 1) mod 142401 = 0"
    then obtain q where "t + 1 = 142401 * q" by auto
    with assms have "q = 1" by auto
    with \<open>t + 1 = 142401 * q\<close> a show False by simp
  qed
  then show ?thesis unfolding code_year_def by (simp add: div_step)
qed

lemma code_year_mono: "0 \<le> s \<Longrightarrow> s \<le> t \<Longrightarrow> t < 146097 \<Longrightarrow> code_year s \<le> code_year t"
proof (induction "nat (t - s)" arbitrary: t)
  case (Suc x)
  then have "code_year s \<le> code_year (t - 1)" by simp
  also have "\<dots> \<le> code_year t" using code_year_step [of "t - 1"] Suc.prems Suc.hyps(2) by simp
  finally show ?case .
qed simp

definition era_start :: "int \<Rightarrow> int" where
  "era_start k = 365 * k + k div 4 - k div 100"

text \<open>The first and the last of the days, for each of the 400 years of an era.\<close>

lemma code_year_ends:
  "list_all (\<lambda>k. 365 * k \<le> code_year (era_start k + 1) \<and> code_year (era_start k + 305) < 365 * k + 365) [0..399]"
  by code_simp

lemma era_start_bound: "0 \<le> k \<Longrightarrow> k < 400 \<Longrightarrow> 0 \<le> era_start k \<and> era_start k \<le> 145731"
  unfolding era_start_def by linarith

lemma code_year_right:
  assumes "0 \<le> k" and "k < 400" and "1 \<le> n" and "n \<le> 305"
  shows "code_year (era_start k + n) div 365 = k"
proof -
  have "k \<in> set [0..399]" using assms by simp
  with code_year_ends have e: "365 * k \<le> code_year (era_start k + 1)"
    "code_year (era_start k + 305) < 365 * k + 365" by (auto simp: list_all_iff)
  have b: "0 \<le> era_start k" "era_start k \<le> 145731" using era_start_bound assms(1,2) by blast+
  have "code_year (era_start k + 1) \<le> code_year (era_start k + n)"
    "code_year (era_start k + n) \<le> code_year (era_start k + 305)"
    using assms(3,4) b by (auto intro: code_year_mono)
  with e show ?thesis by (intro int_div_pos_eq [of _ _ _ "code_year (era_start k + n) - 365 * k"]) auto
qed


subsection \<open>The code's arithmetic on 32-bit words\<close>

lemma word_div_int:
  assumes "0 \<le> a" and "a < 2 ^ 32" and "0 \<le> b" and "b < 2 ^ 32"
  shows "(word_of_int a :: u32) div word_of_int b = word_of_int (a div b)"
  using assms by (simp add: word_div_def uint_word_of_int)

lemma code_year_word:
  assumes "0 \<le> t" and "t < 146097"
  shows "((word_of_int t :: u32) - word_of_int t div 1024 + word_of_int t div 1461 - word_of_int t div 142401) div 365 =
    word_of_int (code_year t div 365)"
proof -
  have d: "(word_of_int t :: u32) div 1024 = word_of_int (t div 1024)"
    "(word_of_int t :: u32) div 1461 = word_of_int (t div 1461)"
    "(word_of_int t :: u32) div 142401 = word_of_int (t div 142401)"
    using word_div_int [of t 1024] word_div_int [of t 1461] word_div_int [of t 142401] assms by simp_all
  have "0 \<le> code_year t" using code_year_mono [of 0 t] assms by (simp add: code_year_def)
  moreover have "code_year t \<le> code_year 146096" using code_year_mono [of t 146096] assms by simp
  moreover have "code_year 146096 < 2 ^ 32" by (simp add: code_year_def)
  ultimately have "(word_of_int (code_year t) :: u32) div word_of_int 365 = word_of_int (code_year t div 365)"
    by (intro word_div_int) simp_all
  moreover have "(word_of_int t :: u32) - word_of_int (t div 1024) + word_of_int (t div 1461) - word_of_int (t div 142401) =
      word_of_int (code_year t)"
    by (simp add: code_year_def)
  ultimately show ?thesis unfolding d by simp
qed

subsection \<open>The printed date\<close>

lemma int_era_day: "int (era_day k n) = era_start (int k) + int n"
proof -
  have "k div 100 \<le> 365 * k + k div 4" by (simp add: div_le_mono2 trans_le_add2)
  then show ?thesis unfolding era_day_def era_start_def by (simp add: zdiv_int of_nat_diff)
qed

lemma code_day_of_year:
  assumes "k < 400"
  shows "(word_of_int (int (era_day k n)) :: u32) -
      (365 * word_of_int (int k) + word_of_int (int k) div 4 - word_of_int (int k) div 100) = word_of_int (int n)"
proof -
  have "(word_of_int (int k) :: u32) div 4 = word_of_int (int k div 4)"
    "(word_of_int (int k) :: u32) div 100 = word_of_int (int k div 100)"
    using word_div_int [of "int k" 4] word_div_int [of "int k" 100] assms by simp_all
  moreover have "(word_of_int (era_start (int k) + int n) :: u32) -
      (word_of_int (365 * int k) + word_of_int (int k div 4) - word_of_int (int k div 100)) = word_of_int (int n)"
    unfolding wi_homs era_start_def by simp
  ultimately show ?thesis unfolding int_era_day by (simp add: wi_hom_mult [symmetric])
qed

lemma code_month_day:
  assumes "3 \<le> m" and "m \<le> 12" and "1 \<le> d" and "d \<le> month_days y m"
  defines "n \<equiv> word_of_int (int (march_day m d)) :: u32"
  shows "(5 * n + 2) div 153 = of_nat (m - 3)"
    and "n - (153 * of_nat (m - 3) + 2) div 5 + 1 = of_nat d"
proof -
  have b: "march_day m d \<le> 305" and mp: "(5 * march_day m d + 2) div 153 = m - 3"
    using march_day_bound [OF assms(1-4)] by blast+
  have "(5 * n + 2) div 153 = word_of_int (int (5 * march_day m d + 2) div 153)"
    using word_div_int [of "int (5 * march_day m d + 2)" 153] b
    unfolding n_def by (simp add: wi_hom_mult [symmetric] wi_hom_add [symmetric] add.commute)
  also have "int (5 * march_day m d + 2) div 153 = int ((5 * march_day m d + 2) div 153)" by (simp add: zdiv_int)
  finally show "(5 * n + 2) div 153 = of_nat (m - 3)" unfolding mp by simp
  have "(153 * of_nat (m - 3) + 2 :: u32) div 5 = of_nat ((153 * (m - 3) + 2) div 5)"
  proof -
    have "(word_of_int (int (153 * (m - 3) + 2)) :: u32) div word_of_int 5 = word_of_int (int ((153 * (m - 3) + 2) div 5))"
      using word_div_int [of "int (153 * (m - 3) + 2)" 5] assms(2) unfolding zdiv_int by simp
    then show ?thesis by (simp only: of_int_of_nat_eq of_nat_add of_nat_mult of_nat_numeral of_int_numeral of_int_add of_int_mult)
  qed
  moreover have "n = of_nat ((153 * (m - 3) + 2) div 5) + of_nat (d - 1)"
    unfolding n_def march_day_def by simp
  moreover have "of_nat d = (of_nat (d - 1) :: u32) + 1" using assms(3) by (cases d) simp_all
  ultimately show "n - (153 * of_nat (m - 3) + 2) div 5 + 1 = of_nat d" by simp
qed

text \<open>
  C39. The date of a good signature is right from the second of March to the end of every
  year: for such a day, \<open>civil_date\<close> of its number since 1970-01-01 is its year, month and day.
\<close>

theorem date_correct:
  assumes "1970 \<le> y" and "3 \<le> m" and "m \<le> 12" and "1 \<le> d" and "d \<le> month_days y m"
    and "(m, d) \<noteq> (3, 1)" and "day_number y m d < 2 ^ 32"
  shows "civil_date (of_nat (day_number y m d)) = (int y, of_nat m, of_nat d)"
proof -
  define e k n where "e = y div 400" and "k = y mod 400" and "n = march_day m d"
  have n: "1 \<le> n" "n \<le> 305" and k: "k < 400" and y: "y = 400 * e + k"
    using march_day_bound [OF assms(2-5)] assms(6) by (auto simp: n_def k_def e_def)
  let ?t = "int (era_day k n)" let ?z = "uint (of_nat (day_number y m d) :: u32) + 719468"
  have z: "?z = 146097 * int e + ?t"
    using era_split [OF assms(1-3), of d] assms(7) unfolding e_def k_def n_def
    by (simp add: uint_nat unat_of_nat flip: of_nat_add)
  have t: "0 \<le> ?t" "?t < 146097" "code_year ?t div 365 = int k"
    using code_year_right [of "int k" "int n"] era_start_bound [of "int k"] k n by (simp_all add: int_era_day)
  have "0 < ?z" by (simp add: add_nonneg_pos)
  then have "(if 0 \<le> ?z then ?z else ?z - 146096) sdiv 146097 = ?z div 146097"
    by (simp add: signed_divide_int_def sgn_pos)
  also have "\<dots> = int e" using t(1,2) unfolding z by simp
  finally have era: "(if 0 \<le> ?z then ?z else ?z - 146096) sdiv 146097 = int e" .
  have "uint (word_of_int (int k) :: u32) = int k" using k by (simp add: uint_nat unat_of_nat)
  moreover have "(of_nat (m - 3) :: u32) < 10" using assms(3) by (simp add: word_less_nat_alt unat_of_nat)
  moreover have "of_nat (m - 3) + 3 = (of_nat m :: u32)" using assms(2) by (metis of_nat_add of_nat_numeral le_add_diff_inverse2)
  moreover have "\<not> (of_nat m :: u32) \<le> 2" using assms(2,3) by (simp add: word_le_nat_alt unat_of_nat)
  ultimately show ?thesis
    unfolding civil_date_def Let_def era
    using code_year_word [OF t(1,2)] code_day_of_year [OF k, of n] code_month_day [OF assms(2-5)] t(3)
    unfolding z n_def [symmetric] by (simp add: y)
qed

theorem date_correct_witness: "civil_date (of_nat (day_number 2025 12 31)) = (2025, 12, 31)"
proof -
  have "day_number 2025 12 31 < 2 ^ 32" using era_split [of 2025 12 31] by (simp add: era_day_def march_day_def)
  then show ?thesis using date_correct [of 2025 12 31] by (simp add: month_days_def)
qed


end
