(* ===== verification/Spec2Isabelle.thy ===== *)
theory Spec2Isabelle
  imports Process CivilDate
begin

text \<open>
  A model of \<open>pipe-k1\<close>, a stateless secp256k1 stream filter (\<open>rust/src\<close>): \<open>main.rs\<close> (commands,
  wire format, key intake, git shim), \<open>spool.rs\<close> (the spooler that holds plaintext back until a
  stream has been verified) and \<open>error.rs\<close>.

  How it works. \<open>real_main\<close> makes the process undumpable and hands its arguments to the git shim
  or to \<open>dispatch_command\<close>. \<open>encrypt\<close> draws an ephemeral scalar, writes a 97-byte header whose
  last 16 bytes are a MAC, then the input in blocks of 64 KiB sealed under consecutive counters,
  the last one marked terminal, and in mode 1 a trailer with the sender's key and its signature of
  the MAC and the plaintext's digest. \<open>decrypt\<close> checks all of this in order while the plaintext
  goes to the spooler, and releases it when the input has ended. \<open>sign\<close> and \<open>verify\<close> make and
  check detached signatures of standard input; the git shim speaks the GnuPG status protocol.

  Theories, in the order of their imports:
  \<^item> \<open>Prelude\<close>, \<open>Text\<close>, \<open>Errors\<close>: big-endian words, slices, results; UTF-8, trimming, lines and
    number parsing as \<open>std\<close> does them; \<open>Pipek1Error\<close>, its text and its exit codes.
  \<^item> \<open>Runtime\<close>: a reader is the list of what successive reads return (data, end of file,
    errors); the \<open>world\<close> record holds standard input and output, the environment block,
    descriptors, files, clock, randomness and the disk of the spooler; programs are functions
    \<open>world \<Rightarrow> result \<times> world\<close> composed by \<open>io_bind\<close> (the \<open>?\<close> operator). \<open>keeps\<close> and \<open>grows\<close> say
    what a program leaves alone.
  \<^item> \<open>Primitives\<close>: the external crates (SHA-2, HMAC, HKDF, ChaCha20-Poly1305, k256, bech32, base64,
    hex, bip32, bip39) as the record \<open>crypto\<close>, and their documented laws: \<open>digest_laws\<close> (output
    lengths), \<open>aead_laws\<close> (sealing is deterministic, opening inverts it), \<open>ecdh_laws\<close> (both sides
    agree), \<open>schnorr_laws\<close> (a signature verifies), \<open>codec_laws\<close> (decoders invert encoders).
    \<open>Demo\<close> is an instance that meets all of them, for the witnesses; \<open>Samples\<close> has runs on it.
  \<^item> \<open>Wire\<close>: constants, \<open>tagged_hash\<close>, \<open>build_nonce\<close>, \<open>build_aad\<close>, \<open>derive_keys\<close>,
    \<open>compute_header_hmac\<close>, \<open>ecdh_shared_x\<close>. The locale \<open>counter_nonce\<close> states that counters give
    distinct nonces; the stream's and the spooler's nonces interpret it.
  \<^item> \<open>Spool\<close>: \<open>StreamSpooler\<close>. The relation \<open>spool_holds\<close> abstracts a spooler to the bytes written
    to it; the locale \<open>sink\<close> (what was put is what is released) is interpreted by it.
  \<^item> \<open>Keys\<close>: key text, descriptors, environment scrubbing, BIP-85, \<open>load_secret_key\<close>.
  \<^item> \<open>Encrypt\<close>, \<open>Decrypt\<close>, \<open>Unverified\<close>: the two commands. \<open>wire_stream\<close> and \<open>wire_message\<close> give
    the bytes of a message, \<open>authentic\<close> says which inputs are one for a key and what their
    plaintext is; the lemmas show that encryption writes such messages, that decryption accepts
    exactly those, and what the flag \<open>--allow-unverified-stream\<close> gives up.
  \<^item> \<open>Signature\<close>: payloads, armor, \<open>sign\<close> and \<open>verify\<close>; \<open>signed_by\<close> is their contract.
  \<^item> \<open>GitShim\<close>, \<open>ShimRuns\<close>, \<open>CivilDate\<close>: the trust database, the status protocol, the date. The
    predicate \<open>silent\<close> follows which programs put no acceptance line on the descriptor.
  \<^item> \<open>Cli\<close>, \<open>Robust\<close>, \<open>Process\<close>: the option loops, \<open>real_main\<close>, freedom from panics, exit codes.
  \<^item> this theory: the properties that span encryption and decryption.

  Loops. Every loop of the source reads its input or counts down, and its model is a function
  with a termination proof on the bytes that are left; the one loop that may not end, the
  re-hashing of a bad hedged scalar, is a partial function into options whose result is \<open>None\<close>
  when it never ends. No fuel is used. Words keep the width of the source: counters are \<open>u64\<close>, a
  chunk length \<open>u32\<close>, the date \<open>u32\<close> with the wrap-around of a release build. The bound
  \<open>2 ^ 64\<close> on the length of an input or plaintext excludes a wrap of the spooler's counters.

  Not modelled: the buffering of standard output (a write is its flush), wiping of local
  variables by \<open>zeroize\<close>, secret descriptors 0 to 2, arguments and paths that are not UTF-8,
  the shell-out to \<open>git config\<close> and directory
  queries (the parameter \<open>git_env\<close>); \<open>lib.rs\<close> only declares the modules; tests, vectors and
  scripts are not part of the program.
\<close>

section \<open>What decryption releases\<close>

text \<open>
  C1. Zero release of unverified plaintext: when \<open>run_decrypt\<close> without
  \<open>--allow-unverified-stream\<close> writes a byte to standard output, or succeeds, then the whole
  input is an authentic message for the key that loaded (header, MAC, every chunk, trailer and
  nothing after it) whose plaintext is within the ceiling; on a disk that returns what was
  written, the output is a prefix of that plaintext, and all of it when the command succeeds.
\<close>

theorem decrypt_zero_rup:
  assumes "digest_laws c" and "aead_laws c" and "live (w_stdin w)"
    and "length (rd_bytes (w_stdin w)) < 2 ^ 64"
    and "run_decrypt c es au False limit args w = (r, w')"
    and "w_stdout w' \<noteq> w_stdout w \<or> r = Ok ()"
  shows "\<exists>priv w1 p. load_secret_key c args w = (Ok priv, w1) \<and>
    authentic c priv es au (rd_bytes (w_stdin w)) p \<and>
    (\<forall>M. limit = Some M \<longrightarrow> length p \<le> unat M) \<and>
    (w_disk_view w = (\<lambda>d. [Data d]) \<longrightarrow>
       (\<exists>d z. w_stdout w' = w_stdout w @ d \<and> p = d @ z \<and> (r = Ok () \<longrightarrow> z = [])))"
proof -
  from run_decrypt_sound [OF assms(2,3,5,6)] obtain priv w1 p where
    s: "load_secret_key c args w = (Ok priv, w1)" "authentic c priv es au (rd_bytes (w_stdin w)) p"
      "\<forall>M. limit = Some M \<longrightarrow> length p < 2 ^ 64 \<longrightarrow> length p \<le> unat M"
      "w_disk_view w = (\<lambda>d. [Data d]) \<longrightarrow> length p < 2 ^ 64 \<longrightarrow>
       (\<exists>d z. w_stdout w' = w_stdout w @ d \<and> p = d @ z \<and> (r = Ok () \<longrightarrow> z = []))" by blast
  have "length p < 2 ^ 64" using authentic_length [OF assms(1,2) s(2)] assms(4) by simp
  with s show ?thesis by blast
qed

theorem decrypt_zero_rup_witness:
  "\<exists>msg w'. run_decrypt demo None True False None sample_args (sample_world [Data msg]) = (Ok (), w') \<and>
     w_stdout w' = [1, 2, 3] \<and> (\<exists>p. authentic demo sample_secret None True msg p \<and> p = w_stdout w')"
proof -
  have live: "live [Data [1, 2, 3 :: u8]]" and len: "length (rd_bytes [Data [1, 2, 3]]) + 1 < 2 ^ 64"
    and mode: "sample_mode 0x01 None True" by (simp_all add: sample_mode_def)
  obtain w0 :: world where au: "authentic demo sample_secret None True (w_stdout w0) (rd_bytes [Data [1, 2, 3]])"
    and ne: "w_stdout w0 \<noteq> []" and small: "length (w_stdout w0) \<le> 22 * length (rd_bytes [Data [1, 2, 3]]) + 215"
    by (rule sample_message [OF live mode len])
  let ?w = "sample_world [Data (w_stdout w0)]"
  obtain w' where run: "run_decrypt demo None True False None sample_args ?w = (Ok (), w')"
    and out: "w_stdout w' = rd_bytes [Data [1, 2, 3]]"
    by (rule sample_decrypt [OF au ne]) simp
  have w: "live (w_stdin ?w)" "length (rd_bytes (w_stdin ?w)) < 2 ^ 64" using ne small by simp_all
  have "\<exists>p. authentic demo sample_secret None True (w_stdout w0) p \<and> p = w_stdout w'"
    using decrypt_zero_rup [OF demo_digest demo_aead w run] sample_load by fastforce
  with run out show ?thesis by (intro exI [of _ "w_stdout w0"] exI [of _ w']) simp
qed



text \<open>
  C9. Every authentic input is accepted: with a key that loads, on an input that does not fail
  and a world where nothing outside the program fails, \<open>run_decrypt\<close> returns \<open>Ok\<close> and writes
  the plaintext.
\<close>

theorem decrypt_accepts:
  assumes "digest_laws c" and "aead_laws c"
    and "load_secret_key c args w = (Ok priv, w1)" and "signing_key c priv = Inr ()"
    and "authentic c priv es au (rd_bytes (w_stdin w)) p" and "length p < 2 ^ 64"
    and "smooth (w_stdin w)" and "faithful w"
  shows "\<exists>w'. run_decrypt c es au False None args w = (Ok (), w') \<and> w_stdout w' = w_stdout w @ p"
  by (rule run_decrypt_complete [OF assms])

theorem decrypt_accepts_witness:
  "\<exists>msg w'. run_decrypt demo (Some sample_recipient) False False None sample_args (sample_world [Data msg]) = (Ok (), w') \<and>
     w_stdout w' = [7, 8]"
proof -
  have live: "live [Data [7, 8 :: u8]]" and len: "length (rd_bytes [Data [7, 8]]) + 1 < 2 ^ 64"
    and mode: "sample_mode 0x01 (Some sample_recipient) False" by (simp_all add: sample_mode_def)
  obtain w0 :: world where au: "authentic demo sample_secret (Some sample_recipient) False (w_stdout w0) (rd_bytes [Data [7, 8]])"
    and ne: "w_stdout w0 \<noteq> []"
    by (rule sample_message [OF live mode len])
  have "smooth (w_stdin (sample_world [Data (w_stdout w0)]))" using ne by simp
  from decrypt_accepts [OF demo_digest demo_aead sample_load sample_keys(1) _ _ this, where p = "[7, 8]"] au
  obtain w' where "run_decrypt demo (Some sample_recipient) False False None sample_args
      (sample_world [Data (w_stdout w0)]) = (Ok (), w')" "w_stdout w' = [7, 8]" by auto
  then show ?thesis by (intro exI [of _ "w_stdout w0"] exI [of _ w']) simp
qed

section \<open>Round trips\<close>

text \<open>
  C8. What \<open>run_encrypt\<close> writes in mode 2, \<open>run_decrypt\<close> decrypts to the same bytes: for every
  plaintext, however standard input delivers it, every recipient key and whatever the random
  source returned.
\<close>

theorem anonymous_roundtrip:
  assumes "digest_laws c" and "aead_laws c" and "ecdh_laws c" and "schnorr_laws c" and "codec_laws c"
    and "run_encrypt c recip 0x02 args efd w = (Ok (), w')"
    and "parse_key_bytes c recip = Inr (verifying_key_of c priv)" and "signing_key c priv = Inr ()"
    and "live (w_stdin w)" and "w_room w = None" and "w_flush_err w = None"
    and "length (rd_bytes (w_stdin w)) + 1 < 2 ^ 64"
    and "load_secret_key c dargs v = (Ok priv, v1)" and "smooth (w_stdin v)" and "faithful v"
    and "w_stdout w' = w_stdout w @ rd_bytes (w_stdin v)"
  shows "\<exists>v'. run_decrypt c None au False None dargs v = (Ok (), v') \<and>
           w_stdout v' = w_stdout v @ rd_bytes (w_stdin w)"
proof -
  have "authentic c priv None au (rd_bytes (w_stdin v)) (rd_bytes (w_stdin w))"
    by (rule run_encrypt_authentic [OF assms(1-11) refl assms(12) _ assms(16)]) simp
  with run_decrypt_complete [OF assms(1,2,13,8)] assms(12,14,15) show ?thesis by simp
qed

theorem anonymous_roundtrip_witness:
  "\<exists>w' v'. run_encrypt demo sample_recipient 0x02 sample_args None
        (sample_world [Data [1, 2], Fail (Io_Error Interrupted []), Data [3]]) = (Ok (), w') \<and>
     run_decrypt demo None False False None sample_args (sample_world [Data (w_stdout w')]) = (Ok (), v') \<and>
     w_stdout v' = [1, 2, 3]"
proof -
  let ?in = "[Data [1, 2], Fail (Io_Error Interrupted []), Data [3]]"
  have live: "live ?in" and len: "length (rd_bytes ?in) + 1 < 2 ^ 64" by simp_all
  obtain w' where run: "run_encrypt demo sample_recipient 0x02 sample_args None (sample_world ?in) = (Ok (), w')"
    using sample_encrypt [OF live len] by blast
  have ne: "w_stdout w' \<noteq> []"
    by (rule run_encrypt_message [OF demo_digest demo_aead demo_ecdh demo_schnorr run sample_parse(2)
          sample_keys(1) _ _ _ refl])
      (use live len in \<open>simp_all add: wire_message_def header_prefix_def Let_def\<close>)
  let ?v = "sample_world [Data (w_stdout w')]"
  have "\<exists>v'. run_decrypt demo None False False None sample_args ?v = (Ok (), v') \<and>
      w_stdout v' = w_stdout ?v @ rd_bytes (w_stdin (sample_world ?in))"
    by (rule anonymous_roundtrip [OF demo_digest demo_aead demo_ecdh demo_schnorr demo_codec run sample_parse(2)
          sample_keys(1) _ _ _ _ sample_load])
      (use live len ne in simp_all)
  with run show ?thesis by simp
qed

text \<open>
  C2. What \<open>run_encrypt\<close> writes in mode 1 with a sender's key, \<open>run_decrypt\<close> decrypts to the
  same bytes for a receiver that names that sender with \<open>--sender\<close>, in hexadecimal or bech32,
  or that allows an untrusted one.
\<close>

theorem authenticated_roundtrip:
  assumes "digest_laws c" and "aead_laws c" and "ecdh_laws c" and "schnorr_laws c" and "codec_laws c"
    and "run_encrypt c recip 0x01 args efd w = (Ok (), w')"
    and "load_secret_key c args (snd (os_random 11 (snd (ephemeral_secret c efd w)))) = (Ok sk, u)"
    and "(es = None \<and> au) \<or> (\<exists>txt. es = Some txt \<and> parse_key_bytes c txt = Inr (verifying_key_of c sk))"
    and "parse_key_bytes c recip = Inr (verifying_key_of c priv)" and "signing_key c priv = Inr ()"
    and "live (w_stdin w)" and "w_room w = None" and "w_flush_err w = None"
    and "length (rd_bytes (w_stdin w)) + 1 < 2 ^ 64"
    and "load_secret_key c dargs v = (Ok priv, v1)" and "smooth (w_stdin v)" and "faithful v"
    and "w_stdout w' = w_stdout w @ rd_bytes (w_stdin v)"
  shows "\<exists>v'. run_decrypt c es au False None dargs v = (Ok (), v') \<and>
           w_stdout v' = w_stdout v @ rd_bytes (w_stdin w)"
proof -
  have "authentic c priv es au (rd_bytes (w_stdin v)) (rd_bytes (w_stdin w))"
    by (rule run_encrypt_authentic [OF assms(1-6,9-13) refl assms(14) _ assms(18), where sk = sk and u' = u])
      (use assms(7,8) in auto)
  with run_decrypt_complete [OF assms(1,2,15,10)] assms(14,16,17) show ?thesis by simp
qed

theorem authenticated_roundtrip_witness:
  "\<exists>w' v'. run_encrypt demo sample_recipient 0x01 sample_args None (sample_world [Data [9]]) = (Ok (), w') \<and>
     run_decrypt demo (Some sample_recipient) False False None sample_args (sample_world [Data (w_stdout w')]) = (Ok (), v') \<and>
     w_stdout v' = [9]"
proof -
  let ?in = "[Data [9 :: u8]]"
  have live: "live ?in" and len: "length (rd_bytes ?in) + 1 < 2 ^ 64"
    and mode: "sample_mode 0x01 (Some sample_recipient) False" by (simp_all add: sample_mode_def)
  obtain w' where run: "run_encrypt demo sample_recipient 0x01 sample_args None (sample_world ?in) = (Ok (), w')"
    and ne: "w_stdout w' \<noteq> []"
    by (rule sample_message [OF live mode len])
  obtain u where load: "load_secret_key demo sample_args
      (snd (os_random 11 (snd (ephemeral_secret demo None (sample_world ?in))))) = (Ok sample_secret, u)"
    using sample_sender_load by blast
  let ?v = "sample_world [Data (w_stdout w')]"
  have "\<exists>v'. run_decrypt demo (Some sample_recipient) False False None sample_args ?v = (Ok (), v') \<and>
      w_stdout v' = w_stdout ?v @ rd_bytes (w_stdin (sample_world ?in))"
    by (rule authenticated_roundtrip [OF demo_digest demo_aead demo_ecdh demo_schnorr demo_codec run load _
          sample_parse(2) sample_keys(1) _ _ _ _ sample_load])
      (use live len ne sample_parse(2) in simp_all)
  with run show ?thesis by simp
qed

section \<open>Who the sender is\<close>




section \<open>What encryption writes\<close>

text \<open>
  C5. \<open>run_encrypt\<close> refines the wire format: once its key stages have returned, on an input
  that does not fail and an output that is writable it returns \<open>Ok\<close> and has appended exactly
  one message: the 81-byte prefix, its MAC, the 64 KiB blocks of the input sealed one by one
  under consecutive counters with only the last terminal, and the trailer of mode 1.
\<close>

theorem encrypt_wire_format:
  assumes "digest_laws c" and "aead_laws c"
    and "parse_key_bytes c recip = Inr r"
    and "ephemeral_secret c efd w = (Ok e, w1)" and "signing_key c e = Inr ()"
    and "length (verifying_key_of c e) = 32"
    and "os_random 11 w1 = (Ok s, w2)" and "sender_intake c m args w2 = (Ok sender, w3)"
    and "ecdh_shared_x c e r = Inr ikm" and "derive_keys c ikm s = Inr (hk, pk)"
    and "live (w_stdin w3)" and "w_room w3 = None" and "w_flush_err w3 = None"
    and "length (rd_bytes (w_stdin w3)) + 1 < 2 ^ 64"
    and "sender_trailer c sender
      (compute_header_hmac c hk (header_prefix m (verifying_key_of c e) r s)) (rd_bytes (w_stdin w3)) = Inr tr"
  shows "\<exists>w'. run_encrypt c recip m args efd w = (Ok (), w') \<and>
    w_stdout w' = w_stdout w3 @ header_prefix m (verifying_key_of c e) r s @
      compute_header_hmac c hk (header_prefix m (verifying_key_of c e) r s) @
      wire_stream c pk r m 0 (plain_blocks (rd_bytes (w_stdin w3))) @ tr"
proof -
  have "length pk = 32" using derive_keys_ok [OF assms(1), of ikm s] assms(10) by auto
  from run_encrypt_room [OF assms(1-10) this assms(11-13) refl assms(14,15)]
  show ?thesis by (auto simp: wire_message_def Let_def)
qed

theorem encrypt_wire_format_witness:
  "\<exists>w' prefix. run_encrypt demo sample_recipient 0x02 sample_args None (sample_world []) = (Ok (), w') \<and>
     length prefix = 97 \<and> w_stdout w' = prefix @ [0, 0, 0, 0, 1] @ drop 102 (w_stdout w')"
proof -
  let ?w = "sample_world []" let ?pub = "verifying_key_of demo sample_secret"
  let ?e = sample_ephemeral
  have rng: "w_rng ?w = (\<lambda>i. of_nat (i + 1))" "w_rng_pos ?w = 0"
    by (simp_all add: sample_world_def demo_world_def)
  have e: "ephemeral_secret demo None ?w = (Ok ?e, ?w\<lparr>w_rng_pos := 32\<rparr>)"
    by (simp add: ephemeral_secret_def io_bind_def os_random_def rng sample_ephemeral_def)
  obtain s where s: "os_random 11 (?w\<lparr>w_rng_pos := 32\<rparr>) = (Ok s, ?w\<lparr>w_rng_pos := 43\<rparr>)"
    by (simp add: os_random_def)
  have se: "sender_intake demo 0x02 sample_args (?w\<lparr>w_rng_pos := 43\<rparr>) = (Ok None, ?w\<lparr>w_rng_pos := 43\<rparr>)"
    by (simp add: sender_intake_def)
  obtain ikm where ikm: "ecdh_shared_x demo ?e ?pub = Inr ikm"
    using ecdh_agreement [OF demo_ecdh sample_ephemeral_ok(1) sample_keys(1)] by blast
  obtain hk pk where keys: "derive_keys demo ikm s = Inr (hk, pk)" "length pk = 32"
    using derive_keys_ok [OF demo_digest] by blast
  have tr: "sender_trailer demo None h p = Inr []" for h p by (simp add: sender_trailer_def)
  let ?pre = "header_prefix 0x02 (verifying_key_of demo ?e) ?pub s"
  have "\<exists>w'. run_encrypt demo sample_recipient 0x02 sample_args None ?w = (Ok (), w') \<and>
    w_stdout w' = w_stdout (?w\<lparr>w_rng_pos := 43\<rparr>) @ ?pre @ compute_header_hmac demo hk ?pre @
      wire_stream demo pk ?pub 0x02 0 (plain_blocks (rd_bytes (w_stdin (?w\<lparr>w_rng_pos := 43\<rparr>)))) @ []"
    by (rule encrypt_wire_format [OF demo_digest demo_aead sample_parse(2) e sample_ephemeral_ok s se ikm keys(1)
          _ _ _ _ tr]) simp_all
  then obtain w' where run: "run_encrypt demo sample_recipient 0x02 sample_args None ?w = (Ok (), w')"
    and out: "w_stdout w' = ?pre @ compute_header_hmac demo hk ?pre @ wire_chunk demo pk ?pub 0x02 0 0x01 []"
    by (auto simp: plain_blocks_def)
  obtain ct tag where "wire_chunk demo pk ?pub 0x02 0 0x01 [] = be32 (of_nat (length ([] :: bytes))) @ [0x01] @ ct @ tag"
    by (rule wire_chunk_ok [OF demo_aead keys(2), where b = "[]" and i = 0 and t = "0x01" and m = "0x02" and r = "?pub"]) (simp, blast)
  then have chunk: "wire_chunk demo pk ?pub 0x02 0 0x01 [] = [0, 0, 0, 0, 1] @ ct @ tag"
    by (simp add: be32_def be_bytes_def)
  have "length (?pre @ compute_header_hmac demo hk ?pre) = 97"
    using length_os_random [OF s] length_header_hmac [OF demo_digest] length_header_prefix
    by simp
  with run out chunk show ?thesis
    by (intro exI [of _ w'] exI [of _ "?pre @ compute_header_hmac demo hk ?pre"]) simp
qed




section \<open>Refusals\<close>



text \<open>
  C26. \<open>--mode\<close> takes any byte: with a mode other than 1 and 2 \<open>run_encrypt\<close> succeeds and writes
  a whole message, which \<open>run_decrypt\<close> then refuses for its mode with nothing released.
\<close>

theorem foreign_mode_undecryptable:
  assumes "digest_laws c" and "aead_laws c" and "ecdh_laws c" and "schnorr_laws c"
    and "run_encrypt c recip m args efd w = (Ok (), w')" and "m \<noteq> 0x01" and "m \<noteq> 0x02"
    and "parse_key_bytes c recip = Inr (verifying_key_of c priv)" and "signing_key c priv = Inr ()"
    and "live (w_stdin w)" and "w_room w = None" and "w_flush_err w = None"
    and "length (rd_bytes (w_stdin w)) + 1 < 2 ^ 64"
    and "load_secret_key c dargs v = (Ok priv, v1)" and "smooth (w_stdin v)"
    and "w_stdout w' = w_stdout w @ rd_bytes (w_stdin v)"
  shows "\<exists>v'. run_decrypt c es au streamed limit dargs v =
      (Err (WireCorruption (''Unsupported mode: '' @ show_nat (unat m))), v') \<and> w_stdout v' = w_stdout v"
proof (rule run_encrypt_message [OF assms(1-5,8-12) refl assms(13)])
  fix e s ikm hk pk sender tr u u'
  let ?pre = "header_prefix m (verifying_key_of c e) (verifying_key_of c priv) s"
  let ?hdr = "?pre @ compute_header_hmac c hk ?pre"
  assume e: "signing_key c e = Inr ()" and s: "length s = 11" and out: "w_stdout w' = w_stdout w @
      wire_message c m (verifying_key_of c e) (verifying_key_of c priv) s hk pk (rd_bytes (w_stdin w)) tr"
  note H = header_of_message [OF ecdh_key_length [OF assms(3) e] ecdh_key_length [OF assms(3,9)] s assms(1),
      where m = m and hk = hk]
  note step = keepsD [OF keeps_load_secret_key assms(14)]
  have v1: "w_stdin v1 = w_stdin v" "w_stdout v1 = w_stdout v"
    by (rule intake_view_fields(1,2) [OF step])+
  obtain rest where bytes: "rd_bytes (w_stdin v1) = ?hdr @ rest"
    using out assms(16) v1 by (simp add: wire_message_def Let_def)
  have "smooth (w_stdin v1)" using assms(15) v1 by simp
  then obtain rs where "stdin_read_exact WIRE_HEADER_SIZE v1 = (Ok (Inr ?hdr), v1\<lparr>w_stdin := rs\<rparr>)"
    by (rule stdin_read_exact_smooth [OF _ bytes H(1)])
  then have hd: "read_header v1 = (Ok ?hdr, v1\<lparr>w_stdin := rs\<rparr>)" by (simp add: read_header_def io_bind_def)
  let ?e = "WireCorruption (''Unsupported mode: '' @ show_nat (unat m))"
  have ck: "check_header (es \<noteq> None) au (verifying_key_of c priv) ?hdr = Inl ?e"
    unfolding H(4) using assms(6,7) by simp
  have "decrypt_verified c es au streamed limit priv v1 = (Err ?e, v1\<lparr>w_stdin := rs\<rparr>)"
    by (simp only: decrypt_verified_def io_bind_def hd ck id_def prod.case res.case io_try_simps io_run_simps)
  then have "run_decrypt c es au streamed limit dargs v = (Err ?e, v1\<lparr>w_stdin := rs\<rparr>)"
    by (simp only: run_decrypt_def io_bind_def assms(9,14) prod.case res.case io_try_simps io_run_simps)
  with v1(2) show ?thesis by simp
qed

theorem foreign_mode_undecryptable_witness:
  "\<exists>w' v'. run_encrypt demo sample_recipient 3 sample_args None (sample_world [Data [1]]) = (Ok (), w') \<and>
     run_decrypt demo None False False None sample_args (sample_world [Data (w_stdout w')]) =
       (Err (WireCorruption (''Unsupported mode: '' @ show_nat (unat (3 :: u8)))), v') \<and> w_stdout v' = []"
proof -
  let ?in = "[Data [1 :: u8]]"
  have live: "live ?in" and len: "length (rd_bytes ?in) + 1 < 2 ^ 64" by simp_all
  obtain w' where run: "run_encrypt demo sample_recipient 3 sample_args None (sample_world ?in) = (Ok (), w')"
    using sample_encrypt [OF live len] by blast
  have ne: "w_stdout w' \<noteq> []"
    by (rule run_encrypt_message [OF demo_digest demo_aead demo_ecdh demo_schnorr run sample_parse(2)
          sample_keys(1) _ _ _ refl])
      (use live len in \<open>simp_all add: wire_message_def header_prefix_def Let_def\<close>)
  have "\<exists>v'. run_decrypt demo None False False None sample_args (sample_world [Data (w_stdout w')]) =
      (Err (WireCorruption (''Unsupported mode: '' @ show_nat (unat (3 :: u8)))), v') \<and>
      w_stdout v' = w_stdout (sample_world [Data (w_stdout w')])"
    by (rule foreign_mode_undecryptable [OF demo_digest demo_aead demo_ecdh demo_schnorr run _ _
          sample_parse(2) sample_keys(1) _ _ _ _ sample_load])
      (use live len ne in simp_all)
  with run show ?thesis by auto
qed

end
